theory Spec2Isabelle
  imports Main "HOL-Library.Word" "HOL-Library.Monad_Syntax"
begin

unbundle bit_operations_syntax

section \<open>The binary generator of wasm-gen.c\<close>

text \<open>
  This theory embeds \<^verbatim>\<open>src/wasm-gen.c\<close>: the growable output buffer, the primitive
  writers, the header and footer writers, the layout pre-pass of \<^verbatim>\<open>before_module\<close> and the
  parser callbacks that emit the instruction stream.

  Conventions of the embedding.
  \<^item> A C function that mutates \<^verbatim>\<open>OutputBuffer\<close> or \<^verbatim>\<open>Context\<close> takes the record and returns
    the updated one. A result is an \<open>option\<close>: \<open>None\<close> stands for an \<^verbatim>\<open>assert\<close> that fails, for
    undefined behaviour (an array read out of range, \<^verbatim>\<open>__builtin_clz(0)\<close>) and for a loop
    that never ends.
  \<^item> \<^verbatim>\<open>size_t\<close> values (buffer sizes, capacities) are natural numbers; \<^verbatim>\<open>uint8_t\<close>,
    \<^verbatim>\<open>uint16_t\<close>, \<^verbatim>\<open>uint32_t\<close> and \<^verbatim>\<open>uint64_t\<close> are words, so every conversion to one
    of them truncates as in C.
  \<^item> The fixed-width writers copy the object representation of their argument
    (\<^verbatim>\<open>memcpy\<close> from \<^verbatim>\<open>&value\<close>); the model fixes a little-endian host. A \<^verbatim>\<open>float\<close> or
    \<^verbatim>\<open>double\<close> is represented by its bit pattern.
  \<^item> The \<^verbatim>\<open>desc\<close> strings and the \<^verbatim>\<open>g_verbose\<close> dumps only print; they are left out.
    \<^verbatim>\<open>malloc\<close> and \<^verbatim>\<open>realloc\<close> are taken to succeed (their failure ends the process
    through \<^verbatim>\<open>FATAL\<close>).
\<close>

type_synonym u8 = "8 word"
type_synonym u16 = "16 word"
type_synonym u32 = "32 word"
type_synonym u64 = "64 word"

subsection \<open>Layout constants\<close>

definition GLOBAL_HEADERS_OFFSET :: nat where
  "GLOBAL_HEADERS_OFFSET = 8"

definition GLOBAL_HEADER_SIZE :: nat where
  "GLOBAL_HEADER_SIZE = 6"

definition FUNC_HEADERS_OFFSET :: "nat \<Rightarrow> nat" where
  "FUNC_HEADERS_OFFSET num_globals = GLOBAL_HEADERS_OFFSET + num_globals * GLOBAL_HEADER_SIZE"

definition FUNC_HEADER_SIZE :: "nat \<Rightarrow> nat" where
  "FUNC_HEADER_SIZE num_args = 24 + num_args"

definition SEGMENT_HEADER_SIZE :: nat where
  "SEGMENT_HEADER_SIZE = 13"

definition FUNC_SIG_SIZE :: "nat \<Rightarrow> nat" where
  "FUNC_SIG_SIZE num_args = 2 + num_args"

definition FUNC_HEADER_NAME_OFFSET :: "nat \<Rightarrow> nat" where
  "FUNC_HEADER_NAME_OFFSET num_args = FUNC_SIG_SIZE num_args + 0"

definition FUNC_HEADER_CODE_START_OFFSET :: "nat \<Rightarrow> nat" where
  "FUNC_HEADER_CODE_START_OFFSET num_args = FUNC_SIG_SIZE num_args + 4"

definition FUNC_HEADER_CODE_END_OFFSET :: "nat \<Rightarrow> nat" where
  "FUNC_HEADER_CODE_END_OFFSET num_args = FUNC_SIG_SIZE num_args + 8"

definition FUNC_HEADER_EXPORTED_OFFSET :: "nat \<Rightarrow> nat" where
  "FUNC_HEADER_EXPORTED_OFFSET num_args = FUNC_SIG_SIZE num_args + 20"

definition SEGMENT_HEADER_DATA_OFFSET :: nat where
  "SEGMENT_HEADER_DATA_OFFSET = 4"

definition INITIAL_OUTPUT_BUFFER_CAPACITY :: nat where
  "INITIAL_OUTPUT_BUFFER_CAPACITY = 64 * 1024"

definition DEFAULT_MEMORY_EXPORT :: u8 where
  "DEFAULT_MEMORY_EXPORT = 1"

subsection \<open>The output buffer\<close>

text \<open>
  \<open>start\<close> is the storage \<^verbatim>\<open>buf->start\<close> points to, as a function from byte index to
  byte; \<open>size_buf\<close> is \<^verbatim>\<open>buf->size\<close>, the number of bytes written so far, and \<open>capacity\<close> the
  number of bytes allocated.
\<close>

record OutputBuffer =
  start :: "nat \<Rightarrow> u8"
  size_buf :: nat
  capacity :: nat

text \<open>The bytes a reader of the buffer sees: the cells \<open>[0, size_buf)\<close>.\<close>

definition contents :: "OutputBuffer \<Rightarrow> u8 list" where
  "contents buf = map (start buf) [0..<size_buf buf]"

text \<open>
  \<^verbatim>\<open>init_output_buffer\<close> frees the old storage and allocates a new one. The bytes of a fresh
  allocation are indeterminate: they are the argument \<open>fresh\<close>.
\<close>

definition init_output_buffer :: "(nat \<Rightarrow> u8) \<Rightarrow> OutputBuffer \<Rightarrow> nat \<Rightarrow> OutputBuffer" where
  "init_output_buffer fresh buf initial_capacity =
     buf\<lparr>start := fresh, size_buf := 0, capacity := initial_capacity\<rparr>"

text \<open>
  The doubling loop of \<^verbatim>\<open>ensure_output_buffer_capacity\<close>. From capacity 0 it never ends,
  so it is a partial function.
\<close>

partial_function (option) grow_capacity :: "nat \<Rightarrow> nat \<Rightarrow> nat option" where
  "grow_capacity new_capacity ensure_capacity =
     (if new_capacity < ensure_capacity
      then grow_capacity (new_capacity * 2) ensure_capacity
      else Some new_capacity)"

declare grow_capacity.simps [code]

text \<open>\<^verbatim>\<open>realloc\<close> keeps the bytes already there; the cells it adds keep what \<open>start\<close> holds.\<close>

definition ensure_output_buffer_capacity :: "OutputBuffer \<Rightarrow> nat \<Rightarrow> OutputBuffer option" where
  "ensure_output_buffer_capacity buf ensure_capacity =
     (if ensure_capacity > capacity buf
      then do {
        new_capacity \<leftarrow> grow_capacity (capacity buf * 2) ensure_capacity;
        Some (buf\<lparr>capacity := new_capacity\<rparr>)
      }
      else Some buf)"

definition memcpy :: "(nat \<Rightarrow> u8) \<Rightarrow> nat \<Rightarrow> u8 list \<Rightarrow> (nat \<Rightarrow> u8)" where
  "memcpy dest offset src =
     (\<lambda>i. if offset \<le> i \<and> i < offset + length src then src ! (i - offset) else dest i)"

text \<open>\<^verbatim>\<open>out_data\<close> writes \<open>src\<close> at \<open>offset\<close> and returns the offset after it; it leaves
  \<^verbatim>\<open>buf->size\<close> alone.\<close>

definition out_data :: "OutputBuffer \<Rightarrow> nat \<Rightarrow> u8 list \<Rightarrow> (OutputBuffer \<times> nat) option" where
  "out_data buf offset src =
     (if offset \<le> size_buf buf
      then do {
        buf' \<leftarrow> ensure_output_buffer_capacity buf (offset + length src);
        Some (buf'\<lparr>start := memcpy (start buf') offset src\<rparr>, offset + length src)
      }
      else None)"

subsection \<open>Primitive writers\<close>

text \<open>The \<open>n\<close> low bytes of a value, least significant first.\<close>

fun le_bytes :: "nat \<Rightarrow> nat \<Rightarrow> u8 list" where
  "le_bytes 0 v = []"
| "le_bytes (Suc n) v = of_nat (v mod 256) # le_bytes n (v div 256)"

definition out_u8 :: "OutputBuffer \<Rightarrow> u8 \<Rightarrow> OutputBuffer option" where
  "out_u8 buf v = do {
     (buf', n) \<leftarrow> out_data buf (size_buf buf) (le_bytes 1 (unat v));
     Some (buf'\<lparr>size_buf := n\<rparr>)
   }"

definition out_u16 :: "OutputBuffer \<Rightarrow> u16 \<Rightarrow> OutputBuffer option" where
  "out_u16 buf v = do {
     (buf', n) \<leftarrow> out_data buf (size_buf buf) (le_bytes 2 (unat v));
     Some (buf'\<lparr>size_buf := n\<rparr>)
   }"

definition out_u32 :: "OutputBuffer \<Rightarrow> u32 \<Rightarrow> OutputBuffer option" where
  "out_u32 buf v = do {
     (buf', n) \<leftarrow> out_data buf (size_buf buf) (le_bytes 4 (unat v));
     Some (buf'\<lparr>size_buf := n\<rparr>)
   }"

definition out_u64 :: "OutputBuffer \<Rightarrow> u64 \<Rightarrow> OutputBuffer option" where
  "out_u64 buf v = do {
     (buf', n) \<leftarrow> out_data buf (size_buf buf) (le_bytes 8 (unat v));
     Some (buf'\<lparr>size_buf := n\<rparr>)
   }"

text \<open>\<^verbatim>\<open>out_f32\<close> and \<^verbatim>\<open>out_f64\<close> take the bit pattern of the \<^verbatim>\<open>float\<close> or \<^verbatim>\<open>double\<close>.\<close>

definition out_f32 :: "OutputBuffer \<Rightarrow> u32 \<Rightarrow> OutputBuffer option" where
  "out_f32 buf v = do {
     (buf', n) \<leftarrow> out_data buf (size_buf buf) (le_bytes 4 (unat v));
     Some (buf'\<lparr>size_buf := n\<rparr>)
   }"

definition out_f64 :: "OutputBuffer \<Rightarrow> u64 \<Rightarrow> OutputBuffer option" where
  "out_f64 buf v = do {
     (buf', n) \<leftarrow> out_data buf (size_buf buf) (le_bytes 8 (unat v));
     Some (buf'\<lparr>size_buf := n\<rparr>)
   }"

text \<open>The patching writers: the offset is a \<^verbatim>\<open>uint32_t\<close>, the result of \<^verbatim>\<open>out_data\<close> is dropped.\<close>

definition out_u8_at :: "OutputBuffer \<Rightarrow> u32 \<Rightarrow> u8 \<Rightarrow> OutputBuffer option" where
  "out_u8_at buf offset v = do {
     (buf', n) \<leftarrow> out_data buf (unat offset) (le_bytes 1 (unat v));
     Some buf'
   }"

definition out_u32_at :: "OutputBuffer \<Rightarrow> u32 \<Rightarrow> u32 \<Rightarrow> OutputBuffer option" where
  "out_u32_at buf offset v = do {
     (buf', n) \<leftarrow> out_data buf (unat offset) (le_bytes 4 (unat v));
     Some buf'
   }"

text \<open>
  The loop of \<^verbatim>\<open>out_leb128\<close>. \<open>data\<close> holds the bytes \<^verbatim>\<open>data[0..i)\<close> written so far, so
  \<^verbatim>\<open>i\<close> is its length.
\<close>

function leb128_loop :: "u32 \<Rightarrow> u8 list \<Rightarrow> u8 list option" where
  "leb128_loop v data =
     (if \<not> length data < 5 then None
      else let b = (ucast (v AND 0x7f) :: u8);
               v' = drop_bit 7 v;
               b' = (if v' \<noteq> 0 then b OR 0x80 else b);
               data' = data @ [b']
           in if v' \<noteq> 0 then leb128_loop v' data' else Some data')"
  by pat_completeness auto
termination
  by (relation "measure (\<lambda>(v, data). 5 - length data)") auto

declare leb128_loop.simps [simp del]

definition out_leb128 :: "OutputBuffer \<Rightarrow> u32 \<Rightarrow> OutputBuffer option" where
  "out_leb128 buf v = do {
     data \<leftarrow> leb128_loop v [];
     (buf', n) \<leftarrow> out_data buf (size_buf buf) data;
     Some (buf'\<lparr>size_buf := n\<rparr>)
   }"

text \<open>
  A C string is the bytes before its first NUL; \<^verbatim>\<open>out_cstr\<close> writes them and the NUL.
\<close>

definition strlen :: "string \<Rightarrow> nat" where
  "strlen s = length (takeWhile (\<lambda>c. c \<noteq> CHR 0x00) s)"

definition cstr_bytes :: "string \<Rightarrow> u8 list" where
  "cstr_bytes s = map (\<lambda>c. of_nat (of_char c)) (take (strlen s) s) @ [0]"

definition out_cstr :: "OutputBuffer \<Rightarrow> string \<Rightarrow> OutputBuffer option" where
  "out_cstr buf s = do {
     (buf', n) \<leftarrow> out_data buf (size_buf buf) (cstr_bytes s);
     Some (buf'\<lparr>size_buf := n\<rparr>)
   }"

subsection \<open>The module, as the generator reads it\<close>

text \<open>
  Modelled from the spec: the types of \<^verbatim>\<open>wasm.h\<close>, which is not part of the source at hand.
  The generator reads a module as ordered sequences of globals, imports, declared functions
  and data segments; a vector's \<^verbatim>\<open>size\<close> is the length of the list and \<^verbatim>\<open>data[i]\<close> its
  \<open>i\<close>-th element. The value types are numbered in the order the initialiser of
  \<^verbatim>\<open>global_type_codes\<close> lists them: an invalid entry for the void type, then the codes of
  i32, i64, f32 and f64.
\<close>

datatype WasmType =
  WASM_TYPE_VOID | WASM_TYPE_I32 | WASM_TYPE_I64 | WASM_TYPE_F32 | WASM_TYPE_F64

fun type_value :: "WasmType \<Rightarrow> nat" where
  "type_value WASM_TYPE_VOID = 0"
| "type_value WASM_TYPE_I32 = 1"
| "type_value WASM_TYPE_I64 = 2"
| "type_value WASM_TYPE_F32 = 3"
| "type_value WASM_TYPE_F64 = 4"

record WasmVariable =
  type :: WasmType

record WasmImport =
  args :: "WasmVariable list"
  result_type :: WasmType
  func_name :: string

record WasmFunction =
  num_args :: nat
  result_type :: WasmType
  locals :: "WasmVariable list"
  exported :: bool
  exported_name :: string

text \<open>\<open>data\<close> is the decoded initialiser of the segment, \<open>size_seg\<close> its \<^verbatim>\<open>size\<close> field.\<close>

record WasmSegment =
  address :: u32
  data :: "u8 list"
  size_seg :: nat

record WasmModule =
  max_memory_size :: u32
  globals :: "WasmVariable list"
  imports_m :: "WasmImport list"
  functions_m :: "WasmFunction list"
  segments :: "WasmSegment list"

text \<open>
  A \<^verbatim>\<open>WasmNumber\<close> is a union; each reader takes one member, so the model keeps the four
  views side by side (the floats as bit patterns).
\<close>

record WasmNumber =
  i32 :: u32
  i64 :: u64
  f32 :: u32
  f64 :: u64

text \<open>
  The numeric values of the opcodes named in the generator. They come from the
  \<^verbatim>\<open>OPCODES\<close> table of \<^verbatim>\<open>wasm.h\<close>, so they are a parameter of every function that emits
  one. A \<^verbatim>\<open>WasmOpcode\<close> passed in by the parser is its numeric value.
\<close>

type_synonym WasmOpcode = int

record opcode_values =
  WASM_OPCODE_NOP :: WasmOpcode
  WASM_OPCODE_BLOCK :: WasmOpcode
  WASM_OPCODE_LOOP :: WasmOpcode
  WASM_OPCODE_IF :: WasmOpcode
  WASM_OPCODE_IF_THEN :: WasmOpcode
  WASM_OPCODE_BREAK :: WasmOpcode
  WASM_OPCODE_CALL :: WasmOpcode
  WASM_OPCODE_I8_CONST :: WasmOpcode
  WASM_OPCODE_GET_LOCAL :: WasmOpcode
  WASM_OPCODE_SET_LOCAL :: WasmOpcode
  WASM_OPCODE_GET_GLOBAL :: WasmOpcode
  WASM_OPCODE_SET_GLOBAL :: WasmOpcode
  WASM_OPCODE_RETURN :: WasmOpcode

definition out_opcode :: "OutputBuffer \<Rightarrow> WasmOpcode \<Rightarrow> OutputBuffer option" where
  "out_opcode buf opcode = out_u8 buf (word_of_int opcode)"

text \<open>
  Modelled from the spec: \<^verbatim>\<open>wasm_copy_segment_data\<close> is defined outside the source at hand;
  the raw-block writer copies the segment's \<open>size\<close> initialiser bytes verbatim. Reading more
  bytes than the initialiser has is undefined.
\<close>

definition wasm_copy_segment_data :: "u8 list \<Rightarrow> (nat \<Rightarrow> u8) \<Rightarrow> nat \<Rightarrow> nat \<Rightarrow> (nat \<Rightarrow> u8) option" where
  "wasm_copy_segment_data src dest offset n =
     (if n \<le> length src then Some (memcpy dest offset (take n src)) else None)"

definition out_segment :: "OutputBuffer \<Rightarrow> WasmSegment \<Rightarrow> OutputBuffer option" where
  "out_segment buf segment = do {
     let offset = size_buf buf;
     buf' \<leftarrow> ensure_output_buffer_capacity buf (offset + size_seg segment);
     mem \<leftarrow> wasm_copy_segment_data (data segment) (start buf') offset (size_seg segment);
     Some (buf'\<lparr>start := mem, size_buf := size_buf buf' + size_seg segment\<rparr>)
   }"

subsection \<open>The header writer\<close>

text \<open>
  Modelled from the spec: \<^verbatim>\<open>__builtin_clz\<close> is a compiler builtin, the number of leading
  zero bits of a 32-bit value, undefined at 0.
\<close>

definition builtin_clz :: "u32 \<Rightarrow> nat option" where
  "builtin_clz x =
     (if x = 0 then None else Some (length (takeWhile Not (map (bit x) (rev [0..<32])))))"

definition log_two_u32 :: "u32 \<Rightarrow> u32 option" where
  "log_two_u32 x =
     (if x = 0 then Some 0
      else do { z \<leftarrow> builtin_clz (x - 1); Some (of_nat (4 * 8 - z)) })"

fun global_type_codes :: "WasmType \<Rightarrow> u8" where
  "global_type_codes WASM_TYPE_VOID = - 1"
| "global_type_codes WASM_TYPE_I32 = 4"
| "global_type_codes WASM_TYPE_I64 = 6"
| "global_type_codes WASM_TYPE_F32 = 8"
| "global_type_codes WASM_TYPE_F64 = 9"

fun out_global_headers :: "OutputBuffer \<Rightarrow> WasmVariable list \<Rightarrow> OutputBuffer option" where
  "out_global_headers buf [] = Some buf"
| "out_global_headers buf (global # rest) = do {
     buf \<leftarrow> out_u32 buf 0;
     buf \<leftarrow> out_u8 buf (global_type_codes (type global));
     buf \<leftarrow> out_u8 buf 0;
     out_global_headers buf rest
   }"

text \<open>
  The loops \<^verbatim>\<open>for (j = 0; j < n; ++j) out_u8(buf, vars.data[j].type, ...)\<close>, run over the
  indices \<open>js\<close>; an index outside the array is an out-of-range read.
\<close>

fun out_arg_types :: "OutputBuffer \<Rightarrow> WasmVariable list \<Rightarrow> nat list \<Rightarrow> OutputBuffer option" where
  "out_arg_types buf vars [] = Some buf"
| "out_arg_types buf vars (j # js) =
     (if j < length vars
      then do {
        buf \<leftarrow> out_u8 buf (of_nat (type_value (type (vars ! j))));
        out_arg_types buf vars js
      }
      else None)"

fun out_import_headers :: "OutputBuffer \<Rightarrow> WasmImport list \<Rightarrow> OutputBuffer option" where
  "out_import_headers buf [] = Some buf"
| "out_import_headers buf (import # rest) = do {
     buf \<leftarrow> out_u8 buf (of_nat (length (args import)));
     buf \<leftarrow> out_u8 buf (of_nat (type_value (WasmImport.result_type import)));
     buf \<leftarrow> out_arg_types buf (args import) [0..<length (args import)];
     buf \<leftarrow> out_u32 buf 0;
     buf \<leftarrow> out_u32 buf 0;
     buf \<leftarrow> out_u32 buf 0;
     buf \<leftarrow> out_u16 buf 0;
     buf \<leftarrow> out_u16 buf 0;
     buf \<leftarrow> out_u16 buf 0;
     buf \<leftarrow> out_u16 buf 0;
     buf \<leftarrow> out_u8 buf 0;
     buf \<leftarrow> out_u8 buf 1;
     out_import_headers buf rest
   }"

text \<open>The counting loop over the locals after the arguments; \<^verbatim>\<open>num_locals\<close> starts at zero.\<close>

definition count_locals :: "WasmFunction \<Rightarrow> (WasmType \<Rightarrow> nat)" where
  "count_locals function =
     fold (\<lambda>j num_locals.
             num_locals(type (locals function ! j) := num_locals (type (locals function ! j)) + 1))
          [num_args function..<length (locals function)] (\<lambda>t. 0)"

fun out_function_headers :: "OutputBuffer \<Rightarrow> WasmFunction list \<Rightarrow> OutputBuffer option" where
  "out_function_headers buf [] = Some buf"
| "out_function_headers buf (function # rest) = do {
     buf \<leftarrow> out_u8 buf (of_nat (num_args function));
     buf \<leftarrow> out_u8 buf (of_nat (type_value (WasmFunction.result_type function)));
     buf \<leftarrow> out_arg_types buf (locals function) [0..<num_args function];
     buf \<leftarrow> out_u32 buf 0;
     buf \<leftarrow> out_u32 buf 0;
     buf \<leftarrow> out_u32 buf 0;
     let num_locals = count_locals function;
     buf \<leftarrow> out_u16 buf (of_nat (num_locals WASM_TYPE_I32));
     buf \<leftarrow> out_u16 buf (of_nat (num_locals WASM_TYPE_I64));
     buf \<leftarrow> out_u16 buf (of_nat (num_locals WASM_TYPE_F32));
     buf \<leftarrow> out_u16 buf (of_nat (num_locals WASM_TYPE_F64));
     buf \<leftarrow> out_u8 buf 0;
     buf \<leftarrow> out_u8 buf 0;
     out_function_headers buf rest
   }"

fun out_segment_headers :: "OutputBuffer \<Rightarrow> WasmSegment list \<Rightarrow> OutputBuffer option" where
  "out_segment_headers buf [] = Some buf"
| "out_segment_headers buf (segment # rest) = do {
     buf \<leftarrow> out_u32 buf (address segment);
     buf \<leftarrow> out_u32 buf 0;
     buf \<leftarrow> out_u32 buf (of_nat (size_seg segment));
     buf \<leftarrow> out_u8 buf 1;
     out_segment_headers buf rest
   }"

subsection \<open>The generator's context\<close>

text \<open>
  \<open>module\<close> is \<^verbatim>\<open>ctx->module\<close>, null until \<^verbatim>\<open>before_module\<close> sets it; \<open>buf\<close> is the buffer
  \<^verbatim>\<open>ctx->buf\<close> points to, which the context alone refers to.
\<close>

record Context =
  module :: "WasmModule option"
  buf :: OutputBuffer
  function_num_exprs_offset :: u32
  function_header_offsets :: "u32 list"
  segment_header_offsets :: "u32 list"

definition out_module_header :: "Context \<Rightarrow> WasmModule \<Rightarrow> Context option" where
  "out_module_header ctx m = do {
     let b = buf ctx;
     l \<leftarrow> log_two_u32 (max_memory_size m);
     b \<leftarrow> out_u8 b (ucast l);
     b \<leftarrow> out_u8 b DEFAULT_MEMORY_EXPORT;
     b \<leftarrow> out_u16 b (of_nat (length (globals m)));
     b \<leftarrow> out_u16 b (of_nat (length (imports_m m) + length (functions_m m)));
     b \<leftarrow> out_u16 b (of_nat (length (segments m)));
     b \<leftarrow> out_global_headers b (globals m);
     b \<leftarrow> out_import_headers b (imports_m m);
     b \<leftarrow> out_function_headers b (functions_m m);
     b \<leftarrow> out_segment_headers b (segments m);
     Some (ctx\<lparr>buf := b\<rparr>)
   }"

subsection \<open>The footer writer\<close>

text \<open>The segment loop of \<^verbatim>\<open>out_module_footer\<close>; \<open>i\<close> is the loop counter.\<close>

fun out_footer_segments :: "OutputBuffer \<Rightarrow> u32 list \<Rightarrow> nat \<Rightarrow> WasmSegment list \<Rightarrow> OutputBuffer option" where
  "out_footer_segments b offsets i [] = Some b"
| "out_footer_segments b offsets i (segment # rest) =
     (if i < length offsets
      then do {
        b \<leftarrow> out_u32_at b (offsets ! i + of_nat SEGMENT_HEADER_DATA_OFFSET) (of_nat (size_buf b));
        b \<leftarrow> out_segment b segment;
        out_footer_segments b offsets (Suc i) rest
      }
      else None)"

text \<open>The two name loops; \<open>offset\<close> is the running \<^verbatim>\<open>uint32_t offset\<close>, returned at the end.\<close>

fun out_footer_imports :: "OutputBuffer \<Rightarrow> u32 \<Rightarrow> WasmImport list \<Rightarrow> (OutputBuffer \<times> u32) option" where
  "out_footer_imports b offset [] = Some (b, offset)"
| "out_footer_imports b offset (import # rest) = do {
     b \<leftarrow> out_u32_at b (offset + of_nat (FUNC_HEADER_NAME_OFFSET (length (args import))))
            (of_nat (size_buf b));
     b \<leftarrow> out_cstr b (func_name import);
     out_footer_imports b (offset + of_nat (FUNC_HEADER_SIZE (length (args import)))) rest
   }"

fun out_footer_functions :: "OutputBuffer \<Rightarrow> u32 \<Rightarrow> WasmFunction list \<Rightarrow> (OutputBuffer \<times> u32) option" where
  "out_footer_functions b offset [] = Some (b, offset)"
| "out_footer_functions b offset (function # rest) = do {
     b \<leftarrow> (if exported function
           then do {
             b \<leftarrow> out_u32_at b (offset + of_nat (FUNC_HEADER_NAME_OFFSET (num_args function)))
                    (of_nat (size_buf b));
             out_cstr b (exported_name function)
           }
           else Some b);
     out_footer_functions b (offset + of_nat (FUNC_HEADER_SIZE (num_args function))) rest
   }"

definition out_module_footer :: "Context \<Rightarrow> WasmModule \<Rightarrow> Context option" where
  "out_module_footer ctx m = do {
     b \<leftarrow> out_footer_segments (buf ctx) (segment_header_offsets ctx) 0 (segments m);
     let offset = (of_nat (FUNC_HEADERS_OFFSET (length (globals m))) :: u32);
     (b, offset) \<leftarrow> out_footer_imports b offset (imports_m m);
     (b, offset) \<leftarrow> out_footer_functions b offset (functions_m m);
     Some (ctx\<lparr>buf := b\<rparr>)
   }"

subsection \<open>The layout pre-pass\<close>

text \<open>The three loops of \<^verbatim>\<open>before_module\<close> over the running \<^verbatim>\<open>uint32_t offset\<close>.\<close>

fun skip_import_headers :: "u32 \<Rightarrow> WasmImport list \<Rightarrow> u32" where
  "skip_import_headers offset [] = offset"
| "skip_import_headers offset (import # rest) =
     skip_import_headers (offset + of_nat (FUNC_HEADER_SIZE (length (args import)))) rest"

fun plan_function_headers :: "u32 \<Rightarrow> WasmFunction list \<Rightarrow> u32 list \<times> u32" where
  "plan_function_headers offset [] = ([], offset)"
| "plan_function_headers offset (function # rest) =
     (let (table, offset') =
            plan_function_headers (offset + of_nat (FUNC_HEADER_SIZE (num_args function))) rest
      in (offset # table, offset'))"

fun plan_segment_headers :: "u32 \<Rightarrow> WasmSegment list \<Rightarrow> u32 list \<times> u32" where
  "plan_segment_headers offset [] = ([], offset)"
| "plan_segment_headers offset (segment # rest) =
     (let (table, offset') = plan_segment_headers (offset + of_nat SEGMENT_HEADER_SIZE) rest
      in (offset # table, offset'))"

definition before_module :: "(nat \<Rightarrow> u8) \<Rightarrow> WasmModule \<Rightarrow> Context \<Rightarrow> Context option" where
  "before_module fresh m ctx =
     (let offset = (of_nat (FUNC_HEADERS_OFFSET (length (globals m))) :: u32);
          offset = skip_import_headers offset (imports_m m);
          (function_table, offset) = plan_function_headers offset (functions_m m);
          (segment_table, offset) = plan_segment_headers offset (segments m);
          ctx = ctx\<lparr>function_header_offsets := function_table,
                    segment_header_offsets := segment_table,
                    module := Some m,
                    buf := init_output_buffer fresh (buf ctx) INITIAL_OUTPUT_BUFFER_CAPACITY\<rparr>
      in out_module_header ctx m)"

definition after_module :: "WasmModule \<Rightarrow> Context \<Rightarrow> Context option" where
  "after_module m ctx = out_module_footer ctx m"

subsection \<open>The parser callbacks\<close>

text \<open>
  A callback that takes a \<^verbatim>\<open>WasmFunction*\<close> into \<^verbatim>\<open>module->functions\<close> takes its index here.
  A \<^verbatim>\<open>WasmParserCookie\<close> is a natural number; \<^verbatim>\<open>int\<close> arguments are integers.
\<close>

type_synonym WasmParserCookie = nat

definition before_function :: "opcode_values \<Rightarrow> WasmModule \<Rightarrow> nat \<Rightarrow> Context \<Rightarrow> Context option" where
  "before_function ops m function_index ctx =
     (if function_index < length (functions_m m) \<and>
         function_index < length (function_header_offsets ctx)
      then do {
        let function = functions_m m ! function_index;
        b \<leftarrow> out_u32_at (buf ctx)
               (function_header_offsets ctx ! function_index +
                of_nat (FUNC_HEADER_CODE_START_OFFSET (num_args function)))
               (of_nat (size_buf (buf ctx)));
        b \<leftarrow> out_opcode b (WASM_OPCODE_BLOCK ops);
        let ctx = ctx\<lparr>function_num_exprs_offset := of_nat (size_buf b)\<rparr>;
        b \<leftarrow> out_u8 b 0;
        Some (ctx\<lparr>buf := b\<rparr>)
      }
      else None)"

definition after_function :: "WasmModule \<Rightarrow> nat \<Rightarrow> int \<Rightarrow> Context \<Rightarrow> Context option" where
  "after_function m function_index num_exprs ctx =
     (if function_index < length (functions_m m) \<and>
         function_index < length (function_header_offsets ctx)
      then do {
        let function = functions_m m ! function_index;
        b \<leftarrow> out_u8_at (buf ctx) (function_num_exprs_offset ctx) (word_of_int num_exprs);
        b \<leftarrow> out_u32_at b
               (function_header_offsets ctx ! function_index +
                of_nat (FUNC_HEADER_CODE_END_OFFSET (num_args function)))
               (of_nat (size_buf b));
        Some (ctx\<lparr>buf := b\<rparr>)
      }
      else None)"

definition before_export :: "WasmModule \<Rightarrow> Context \<Rightarrow> Context option" where
  "before_export m ctx = Some ctx"

definition after_export :: "WasmModule \<Rightarrow> nat \<Rightarrow> Context \<Rightarrow> Context option" where
  "after_export m function_index ctx =
     (if function_index < length (functions_m m) \<and>
         function_index < length (function_header_offsets ctx)
      then do {
        let function = functions_m m ! function_index;
        b \<leftarrow> out_u8_at (buf ctx)
               (function_header_offsets ctx ! function_index +
                of_nat (FUNC_HEADER_EXPORTED_OFFSET (num_args function)))
               1;
        Some (ctx\<lparr>buf := b\<rparr>)
      }
      else None)"

definition before_block :: "opcode_values \<Rightarrow> Context \<Rightarrow> (WasmParserCookie \<times> Context) option" where
  "before_block ops ctx = do {
     b \<leftarrow> out_opcode (buf ctx) (WASM_OPCODE_BLOCK ops);
     let cookie = size_buf b;
     b \<leftarrow> out_u8 b 0;
     Some (cookie, ctx\<lparr>buf := b\<rparr>)
   }"

definition after_block :: "int \<Rightarrow> WasmParserCookie \<Rightarrow> Context \<Rightarrow> Context option" where
  "after_block num_exprs cookie ctx = do {
     let offset = (of_nat cookie :: u32);
     b \<leftarrow> out_u8_at (buf ctx) offset (word_of_int num_exprs);
     Some (ctx\<lparr>buf := b\<rparr>)
   }"

definition before_binary :: "WasmOpcode \<Rightarrow> Context \<Rightarrow> Context option" where
  "before_binary opcode ctx = do {
     b \<leftarrow> out_opcode (buf ctx) opcode;
     Some (ctx\<lparr>buf := b\<rparr>)
   }"

definition after_break :: "opcode_values \<Rightarrow> int \<Rightarrow> Context \<Rightarrow> Context option" where
  "after_break ops depth ctx = do {
     b \<leftarrow> out_opcode (buf ctx) (WASM_OPCODE_BREAK ops);
     b \<leftarrow> out_u8 b (word_of_int depth);
     Some (ctx\<lparr>buf := b\<rparr>)
   }"

definition before_call :: "opcode_values \<Rightarrow> int \<Rightarrow> Context \<Rightarrow> Context option" where
  "before_call ops function_index ctx = do {
     b \<leftarrow> out_opcode (buf ctx) (WASM_OPCODE_CALL ops);
     m \<leftarrow> module ctx;
     b \<leftarrow> out_leb128 b (word_of_int (int (length (imports_m m)) + function_index));
     Some (ctx\<lparr>buf := b\<rparr>)
   }"

definition before_call_import :: "opcode_values \<Rightarrow> int \<Rightarrow> Context \<Rightarrow> Context option" where
  "before_call_import ops import_index ctx = do {
     b \<leftarrow> out_opcode (buf ctx) (WASM_OPCODE_CALL ops);
     b \<leftarrow> out_leb128 b (word_of_int import_index);
     Some (ctx\<lparr>buf := b\<rparr>)
   }"

definition before_compare :: "WasmOpcode \<Rightarrow> Context \<Rightarrow> Context option" where
  "before_compare opcode ctx = do {
     b \<leftarrow> out_opcode (buf ctx) opcode;
     Some (ctx\<lparr>buf := b\<rparr>)
   }"

definition after_const :: "opcode_values \<Rightarrow> WasmOpcode \<Rightarrow> WasmType \<Rightarrow> WasmNumber \<Rightarrow> Context \<Rightarrow> Context option" where
  "after_const ops opcode t v ctx =
     (case t of
        WASM_TYPE_I32 \<Rightarrow>
          (if - 128 \<le> sint (i32 v) \<and> sint (i32 v) < 127
           then do {
             b \<leftarrow> out_opcode (buf ctx) (WASM_OPCODE_I8_CONST ops);
             b \<leftarrow> out_u8 b (ucast (i32 v));
             Some (ctx\<lparr>buf := b\<rparr>)
           }
           else do {
             b \<leftarrow> out_opcode (buf ctx) opcode;
             b \<leftarrow> out_u32 b (i32 v);
             Some (ctx\<lparr>buf := b\<rparr>)
           })
      | WASM_TYPE_I64 \<Rightarrow> do {
          b \<leftarrow> out_opcode (buf ctx) opcode;
          b \<leftarrow> out_u64 b (i64 v);
          Some (ctx\<lparr>buf := b\<rparr>)
        }
      | WASM_TYPE_F32 \<Rightarrow> do {
          b \<leftarrow> out_opcode (buf ctx) opcode;
          b \<leftarrow> out_f32 b (f32 v);
          Some (ctx\<lparr>buf := b\<rparr>)
        }
      | WASM_TYPE_F64 \<Rightarrow> do {
          b \<leftarrow> out_opcode (buf ctx) opcode;
          b \<leftarrow> out_f64 b (f64 v);
          Some (ctx\<lparr>buf := b\<rparr>)
        }
      | WASM_TYPE_VOID \<Rightarrow> None)"

definition before_convert :: "WasmOpcode \<Rightarrow> Context \<Rightarrow> Context option" where
  "before_convert opcode ctx = do {
     b \<leftarrow> out_opcode (buf ctx) opcode;
     Some (ctx\<lparr>buf := b\<rparr>)
   }"

definition after_get_local :: "opcode_values \<Rightarrow> int \<Rightarrow> Context \<Rightarrow> Context option" where
  "after_get_local ops remapped_index ctx = do {
     b \<leftarrow> out_opcode (buf ctx) (WASM_OPCODE_GET_LOCAL ops);
     b \<leftarrow> out_leb128 b (word_of_int remapped_index);
     Some (ctx\<lparr>buf := b\<rparr>)
   }"

definition before_if :: "opcode_values \<Rightarrow> Context \<Rightarrow> (WasmParserCookie \<times> Context) option" where
  "before_if ops ctx = do {
     let offset = (of_nat (size_buf (buf ctx)) :: u32);
     b \<leftarrow> out_opcode (buf ctx) (WASM_OPCODE_IF ops);
     Some (unat offset, ctx\<lparr>buf := b\<rparr>)
   }"

definition after_if :: "opcode_values \<Rightarrow> int \<Rightarrow> WasmParserCookie \<Rightarrow> Context \<Rightarrow> Context option" where
  "after_if ops with_else cookie ctx =
     (if with_else \<noteq> 0
      then do {
        let offset = (of_nat cookie :: u32);
        b \<leftarrow> out_u8_at (buf ctx) offset (word_of_int (WASM_OPCODE_IF_THEN ops));
        Some (ctx\<lparr>buf := b\<rparr>)
      }
      else Some ctx)"

definition before_label :: "opcode_values \<Rightarrow> Context \<Rightarrow> (WasmParserCookie \<times> Context) option" where
  "before_label ops ctx = do {
     b \<leftarrow> out_opcode (buf ctx) (WASM_OPCODE_BLOCK ops);
     let cookie = size_buf b;
     b \<leftarrow> out_u8 b 0;
     Some (cookie, ctx\<lparr>buf := b\<rparr>)
   }"

definition after_label :: "int \<Rightarrow> WasmParserCookie \<Rightarrow> Context \<Rightarrow> Context option" where
  "after_label num_exprs cookie ctx = do {
     let offset = (of_nat cookie :: u32);
     b \<leftarrow> out_u8_at (buf ctx) offset (word_of_int num_exprs);
     Some (ctx\<lparr>buf := b\<rparr>)
   }"

definition before_load :: "WasmOpcode \<Rightarrow> u8 \<Rightarrow> Context \<Rightarrow> Context option" where
  "before_load opcode access ctx = do {
     b \<leftarrow> out_opcode (buf ctx) opcode;
     b \<leftarrow> out_u8 b access;
     Some (ctx\<lparr>buf := b\<rparr>)
   }"

definition after_load_global :: "opcode_values \<Rightarrow> int \<Rightarrow> Context \<Rightarrow> Context option" where
  "after_load_global ops index ctx = do {
     b \<leftarrow> out_opcode (buf ctx) (WASM_OPCODE_GET_GLOBAL ops);
     b \<leftarrow> out_leb128 b (word_of_int index);
     Some (ctx\<lparr>buf := b\<rparr>)
   }"

definition before_loop :: "opcode_values \<Rightarrow> Context \<Rightarrow> (WasmParserCookie \<times> Context) option" where
  "before_loop ops ctx = do {
     b \<leftarrow> out_opcode (buf ctx) (WASM_OPCODE_LOOP ops);
     let cookie = size_buf b;
     b \<leftarrow> out_u8 b 0;
     Some (cookie, ctx\<lparr>buf := b\<rparr>)
   }"

definition after_loop :: "int \<Rightarrow> WasmParserCookie \<Rightarrow> Context \<Rightarrow> Context option" where
  "after_loop num_exprs cookie ctx = do {
     let offset = (of_nat cookie :: u32);
     b \<leftarrow> out_u8_at (buf ctx) offset (word_of_int num_exprs);
     Some (ctx\<lparr>buf := b\<rparr>)
   }"

definition after_nop :: "opcode_values \<Rightarrow> Context \<Rightarrow> Context option" where
  "after_nop ops ctx = do {
     b \<leftarrow> out_opcode (buf ctx) (WASM_OPCODE_NOP ops);
     Some (ctx\<lparr>buf := b\<rparr>)
   }"

definition before_return :: "opcode_values \<Rightarrow> Context \<Rightarrow> Context option" where
  "before_return ops ctx = do {
     b \<leftarrow> out_opcode (buf ctx) (WASM_OPCODE_RETURN ops);
     Some (ctx\<lparr>buf := b\<rparr>)
   }"

definition before_set_local :: "opcode_values \<Rightarrow> int \<Rightarrow> Context \<Rightarrow> Context option" where
  "before_set_local ops index ctx = do {
     b \<leftarrow> out_opcode (buf ctx) (WASM_OPCODE_SET_LOCAL ops);
     b \<leftarrow> out_leb128 b (word_of_int index);
     Some (ctx\<lparr>buf := b\<rparr>)
   }"

definition before_store :: "WasmOpcode \<Rightarrow> u8 \<Rightarrow> Context \<Rightarrow> Context option" where
  "before_store opcode access ctx = do {
     b \<leftarrow> out_opcode (buf ctx) opcode;
     b \<leftarrow> out_u8 b access;
     Some (ctx\<lparr>buf := b\<rparr>)
   }"

definition before_store_global :: "opcode_values \<Rightarrow> int \<Rightarrow> Context \<Rightarrow> Context option" where
  "before_store_global ops index ctx = do {
     b \<leftarrow> out_opcode (buf ctx) (WASM_OPCODE_SET_GLOBAL ops);
     b \<leftarrow> out_leb128 b (word_of_int index);
     Some (ctx\<lparr>buf := b\<rparr>)
   }"

definition before_unary :: "WasmOpcode \<Rightarrow> Context \<Rightarrow> Context option" where
  "before_unary opcode ctx = do {
     b \<leftarrow> out_opcode (buf ctx) opcode;
     Some (ctx\<lparr>buf := b\<rparr>)
   }"

subsection \<open>Expression events\<close>

text \<open>
  The expression-level callbacks as one datatype, so that what the parser does between two
  given callbacks can be an arbitrary list of them. A callback that returns a cookie hands
  it to the parser; a later event carries the cookie the parser passes back.
\<close>

datatype event =
  Before_block
| After_block int WasmParserCookie
| Before_binary WasmOpcode
| After_break int
| Before_call int
| Before_call_import int
| Before_compare WasmOpcode
| After_const WasmOpcode WasmType WasmNumber
| Before_convert WasmOpcode
| After_get_local int
| Before_if
| After_if int WasmParserCookie
| Before_label
| After_label int WasmParserCookie
| Before_load WasmOpcode u8
| After_load_global int
| Before_loop
| After_loop int WasmParserCookie
| After_nop
| Before_return
| Before_set_local int
| Before_store WasmOpcode u8
| Before_store_global int
| Before_unary WasmOpcode

fun callback :: "opcode_values \<Rightarrow> event \<Rightarrow> Context \<Rightarrow> Context option" where
  "callback ops Before_block ctx = map_option snd (before_block ops ctx)"
| "callback ops (After_block num_exprs cookie) ctx = after_block num_exprs cookie ctx"
| "callback ops (Before_binary opcode) ctx = before_binary opcode ctx"
| "callback ops (After_break depth) ctx = after_break ops depth ctx"
| "callback ops (Before_call function_index) ctx = before_call ops function_index ctx"
| "callback ops (Before_call_import import_index) ctx = before_call_import ops import_index ctx"
| "callback ops (Before_compare opcode) ctx = before_compare opcode ctx"
| "callback ops (After_const opcode t v) ctx = after_const ops opcode t v ctx"
| "callback ops (Before_convert opcode) ctx = before_convert opcode ctx"
| "callback ops (After_get_local index) ctx = after_get_local ops index ctx"
| "callback ops Before_if ctx = map_option snd (before_if ops ctx)"
| "callback ops (After_if with_else cookie) ctx = after_if ops with_else cookie ctx"
| "callback ops Before_label ctx = map_option snd (before_label ops ctx)"
| "callback ops (After_label num_exprs cookie) ctx = after_label num_exprs cookie ctx"
| "callback ops (Before_load opcode access) ctx = before_load opcode access ctx"
| "callback ops (After_load_global index) ctx = after_load_global ops index ctx"
| "callback ops Before_loop ctx = map_option snd (before_loop ops ctx)"
| "callback ops (After_loop num_exprs cookie) ctx = after_loop num_exprs cookie ctx"
| "callback ops After_nop ctx = after_nop ops ctx"
| "callback ops Before_return ctx = before_return ops ctx"
| "callback ops (Before_set_local index) ctx = before_set_local ops index ctx"
| "callback ops (Before_store opcode access) ctx = before_store opcode access ctx"
| "callback ops (Before_store_global index) ctx = before_store_global ops index ctx"
| "callback ops (Before_unary opcode) ctx = before_unary opcode ctx"

fun callbacks :: "opcode_values \<Rightarrow> event list \<Rightarrow> Context \<Rightarrow> Context option" where
  "callbacks ops [] ctx = Some ctx"
| "callbacks ops (e # es) ctx = do { ctx \<leftarrow> callback ops e ctx; callbacks ops es ctx }"

subsection \<open>Notions used to state the properties\<close>

text \<open>
  \<open>appended b bs b'\<close>: buffer \<open>b'\<close> is \<open>b\<close> with the bytes \<open>bs\<close> written at its end and the
  size advanced past them. \<open>patched b offset bs b'\<close>: \<open>b'\<close> is \<open>b\<close> with \<open>bs\<close> written at
  \<open>offset\<close> and the size as it was. Neither lets the capacity shrink.
\<close>

definition appended :: "OutputBuffer \<Rightarrow> u8 list \<Rightarrow> OutputBuffer \<Rightarrow> bool" where
  "appended b bs b' \<longleftrightarrow>
     start b' = memcpy (start b) (size_buf b) bs \<and>
     size_buf b' = size_buf b + length bs \<and>
     capacity b \<le> capacity b'"

definition patched :: "OutputBuffer \<Rightarrow> nat \<Rightarrow> u8 list \<Rightarrow> OutputBuffer \<Rightarrow> bool" where
  "patched b offset bs b' \<longleftrightarrow>
     start b' = memcpy (start b) offset bs \<and>
     size_buf b' = size_buf b \<and>
     capacity b \<le> capacity b'"

text \<open>The bytes of the storage at \<open>[offset, offset + n)\<close>.\<close>

definition bytes_at :: "OutputBuffer \<Rightarrow> nat \<Rightarrow> nat \<Rightarrow> u8 list" where
  "bytes_at b offset n = map (start b) [offset..<offset + n]"

text \<open>The value of a little-endian byte sequence, and the 32-bit field stored at an offset.\<close>

fun le_value :: "u8 list \<Rightarrow> nat" where
  "le_value [] = 0"
| "le_value (x # xs) = unat x + 256 * le_value xs"

definition field_u32 :: "OutputBuffer \<Rightarrow> nat \<Rightarrow> nat" where
  "field_u32 b offset = le_value (bytes_at b offset 4)"

text \<open>
  The encoding \<^verbatim>\<open>out_leb128\<close> is meant to produce, as a function of the value: the low
  seven bits first, the high bit set on every byte that is followed by another.
\<close>

function leb128_bytes :: "u32 \<Rightarrow> u8 list" where
  "leb128_bytes v =
     (let b = (ucast (v AND 0x7f) :: u8); v' = drop_bit 7 v
      in if v' \<noteq> 0 then (b OR 0x80) # leb128_bytes v' else [b])"
  by pat_completeness auto
termination
proof (relation "measure unat")
  show "wf (measure unat)" by simp
next
  fix v :: u32 and b :: u8 and v' :: u32
  assume v': "v' = drop_bit 7 v" and nz: "v' \<noteq> 0"
  have "unat v' = unat v div 128"
    unfolding v' unat_drop_bit_eq by (simp add: drop_bit_eq_div)
  moreover from nz have "unat v' \<noteq> 0" by (simp add: unat_eq_zero)
  ultimately have "unat v' < unat v"
    by arith
  then show "(v', v) \<in> measure unat" by simp
qed

declare leb128_bytes.simps [simp del]

text \<open>The decoder of the base-128 encoding: seven payload bits per byte, low group first.\<close>

fun leb128_decode :: "u8 list \<Rightarrow> nat" where
  "leb128_decode [] = 0"
| "leb128_decode (b # bs) = unat (b AND 0x7f) + 128 * leb128_decode bs"

text \<open>
  The number of binary digits of a value: one digit for 0 and for 1, and one more for each
  further halving.
\<close>

fun bits_needed :: "nat \<Rightarrow> nat" where
  "bits_needed n = (if n < 2 then 1 else Suc (bits_needed (n div 2)))"

declare bits_needed.simps [simp del]

text \<open>
  The closed form of the header layout: where the header of the \<open>i\<close>-th declared function
  and of the \<open>s\<close>-th segment start, from the counts and argument counts alone.
\<close>

definition import_headers_size :: "WasmModule \<Rightarrow> nat" where
  "import_headers_size m = (\<Sum>import\<leftarrow>imports_m m. 24 + length (args import))"

definition function_header_offset :: "WasmModule \<Rightarrow> nat \<Rightarrow> nat" where
  "function_header_offset m i =
     8 + 6 * length (globals m) + import_headers_size m +
     (\<Sum>function\<leftarrow>take i (functions_m m). 24 + num_args function)"

definition segment_header_offset :: "WasmModule \<Rightarrow> nat \<Rightarrow> nat" where
  "segment_header_offset m s =
     function_header_offset m (length (functions_m m)) + 13 * s"

definition headers_size :: "WasmModule \<Rightarrow> nat" where
  "headers_size m = segment_header_offset m (length (segments m))"

text \<open>
  The appending writers as one datatype, to speak of an arbitrary sequence of appends:
  \<open>write_bytes\<close> is the byte sequence a call hands to the buffer, \<open>out_write\<close> the call.
\<close>

datatype writer_call =
  Write_u8 u8
| Write_u16 u16
| Write_u32 u32
| Write_u64 u64
| Write_f32 u32
| Write_f64 u64
| Write_opcode WasmOpcode
| Write_leb128 u32
| Write_cstr string
| Write_segment WasmSegment

fun write_bytes :: "writer_call \<Rightarrow> u8 list" where
  "write_bytes (Write_u8 v) = [v]"
| "write_bytes (Write_u16 v) = le_bytes 2 (unat v)"
| "write_bytes (Write_u32 v) = le_bytes 4 (unat v)"
| "write_bytes (Write_u64 v) = le_bytes 8 (unat v)"
| "write_bytes (Write_f32 v) = le_bytes 4 (unat v)"
| "write_bytes (Write_f64 v) = le_bytes 8 (unat v)"
| "write_bytes (Write_opcode opcode) = [word_of_int opcode]"
| "write_bytes (Write_leb128 v) = leb128_bytes v"
| "write_bytes (Write_cstr s) = cstr_bytes s"
| "write_bytes (Write_segment segment) = take (size_seg segment) (data segment)"

fun out_write :: "OutputBuffer \<Rightarrow> writer_call \<Rightarrow> OutputBuffer option" where
  "out_write b (Write_u8 v) = out_u8 b v"
| "out_write b (Write_u16 v) = out_u16 b v"
| "out_write b (Write_u32 v) = out_u32 b v"
| "out_write b (Write_u64 v) = out_u64 b v"
| "out_write b (Write_f32 v) = out_f32 b v"
| "out_write b (Write_f64 v) = out_f64 b v"
| "out_write b (Write_opcode opcode) = out_opcode b opcode"
| "out_write b (Write_leb128 v) = out_leb128 b v"
| "out_write b (Write_cstr s) = out_cstr b s"
| "out_write b (Write_segment segment) = out_segment b segment"

fun out_writes :: "OutputBuffer \<Rightarrow> writer_call list \<Rightarrow> OutputBuffer option" where
  "out_writes b [] = Some b"
| "out_writes b (w # ws) = do { b \<leftarrow> out_write b w; out_writes b ws }"

text \<open>A segment whose initialiser holds the bytes its size field announces.\<close>

definition segment_ok :: "WasmSegment \<Rightarrow> bool" where
  "segment_ok segment \<longleftrightarrow> size_seg segment \<le> length (data segment)"

fun write_ok :: "writer_call \<Rightarrow> bool" where
  "write_ok (Write_segment segment) = segment_ok segment"
| "write_ok w = True"

text \<open>\<open>extends b b'\<close>: from \<open>b\<close> to \<open>b'\<close> neither the size nor the capacity shrank.\<close>

definition extends :: "OutputBuffer \<Rightarrow> OutputBuffer \<Rightarrow> bool" where
  "extends b b' \<longleftrightarrow> size_buf b \<le> size_buf b' \<and> capacity b \<le> capacity b'"

text \<open>The bytes \<^verbatim>\<open>after_const\<close> emits for a literal of each type.\<close>

fun const_bytes :: "opcode_values \<Rightarrow> WasmOpcode \<Rightarrow> WasmType \<Rightarrow> WasmNumber \<Rightarrow> u8 list" where
  "const_bytes ops opcode WASM_TYPE_I32 v =
     (if - 128 \<le> sint (i32 v) \<and> sint (i32 v) < 127
      then [word_of_int (WASM_OPCODE_I8_CONST ops), ucast (i32 v)]
      else word_of_int opcode # le_bytes 4 (unat (i32 v)))"
| "const_bytes ops opcode WASM_TYPE_I64 v = word_of_int opcode # le_bytes 8 (unat (i64 v))"
| "const_bytes ops opcode WASM_TYPE_F32 v = word_of_int opcode # le_bytes 4 (unat (f32 v))"
| "const_bytes ops opcode WASM_TYPE_F64 v = word_of_int opcode # le_bytes 8 (unat (f64 v))"
| "const_bytes ops opcode WASM_TYPE_VOID v = []"

text \<open>
  A numbering of the opcodes and a context with an allocated, empty buffer, for the
  concrete instances below. The numbering stands for whichever table \<^verbatim>\<open>wasm.h\<close> has; the
  theorems hold for every numbering.
\<close>

definition sample_opcodes :: opcode_values where
  "sample_opcodes =
     \<lparr>WASM_OPCODE_NOP = 0, WASM_OPCODE_BLOCK = 1, WASM_OPCODE_LOOP = 2, WASM_OPCODE_IF = 3,
      WASM_OPCODE_IF_THEN = 4, WASM_OPCODE_BREAK = 6, WASM_OPCODE_CALL = 9,
      WASM_OPCODE_I8_CONST = 16, WASM_OPCODE_GET_LOCAL = 21, WASM_OPCODE_SET_LOCAL = 22,
      WASM_OPCODE_GET_GLOBAL = 23, WASM_OPCODE_SET_GLOBAL = 24, WASM_OPCODE_RETURN = 8\<rparr>"

definition sample_ctx :: Context where
  "sample_ctx =
     \<lparr>module = None,
      buf = \<lparr>start = (\<lambda>i. 0), size_buf = 0, capacity = INITIAL_OUTPUT_BUFFER_CAPACITY\<rparr>,
      function_num_exprs_offset = 0,
      function_header_offsets = [],
      segment_header_offsets = []\<rparr>"

text \<open>
  The module of the end-to-end scenario: no globals, no imports, no segments, no memory, and
  one declared function without arguments, result or locals, exported as \<open>main\<close>.
\<close>

definition sample_module :: WasmModule where
  "sample_module =
     \<lparr>max_memory_size = 0, globals = [], imports_m = [],
      functions_m = [\<lparr>num_args = 0, result_type = WASM_TYPE_VOID, locals = [],
                      exported = True, exported_name = ''main''\<rparr>],
      segments = []\<rparr>"

text \<open>
  A block whose body is \<open>k\<close> no-ops, closed with the count \<open>k\<close> of the expressions emitted
  in it: the cookie of the block, the size of the buffer after the close, and the value of
  the byte at the cookie.
\<close>

definition nop_block :: "opcode_values \<Rightarrow> Context \<Rightarrow> nat \<Rightarrow> (WasmParserCookie \<times> nat \<times> nat) option" where
  "nop_block ops ctx k = do {
     (cookie, ctx1) \<leftarrow> before_block ops ctx;
     ctx2 \<leftarrow> callbacks ops (replicate k After_nop) ctx1;
     ctx3 \<leftarrow> after_block (int k) cookie ctx2;
     Some (cookie, size_buf (buf ctx3), unat (start (buf ctx3) cookie))
   }"

text \<open>
  \<open>emits f wrap bs\<close>: on every allocated buffer the writer \<open>f\<close> succeeds, appends exactly the
  bytes \<open>bs\<close>, and returns the new buffer wrapped by \<open>wrap\<close>.
\<close>

definition emits :: "(OutputBuffer \<Rightarrow> 'a option) \<Rightarrow> (OutputBuffer \<Rightarrow> 'a) \<Rightarrow> u8 list \<Rightarrow> bool" where
  "emits f wrap bs \<longleftrightarrow>
     (\<forall>b. 0 < capacity b \<longrightarrow> (\<exists>b'. f b = Some (wrap b') \<and> appended b bs b'))"

text \<open>
  The bytes of the header records, as functions of the module: what \<^verbatim>\<open>out_module_header\<close> is
  to write for each global, import, declared function and segment, and for the preamble.
\<close>

definition global_header_bytes :: "WasmVariable \<Rightarrow> u8 list" where
  "global_header_bytes global = le_bytes 4 0 @ [global_type_codes (type global)] @ [0]"

definition arg_type_bytes :: "WasmVariable list \<Rightarrow> u8 list" where
  "arg_type_bytes vars = map (\<lambda>v. of_nat (type_value (type v))) vars"

definition import_header_bytes :: "WasmImport \<Rightarrow> u8 list" where
  "import_header_bytes import =
     [of_nat (length (args import))] @
     [of_nat (type_value (WasmImport.result_type import))] @
     arg_type_bytes (args import) @
     le_bytes 4 0 @ le_bytes 4 0 @ le_bytes 4 0 @
     le_bytes 2 0 @ le_bytes 2 0 @ le_bytes 2 0 @ le_bytes 2 0 @
     [0] @ [1]"

definition function_header_bytes :: "WasmFunction \<Rightarrow> u8 list" where
  "function_header_bytes function =
     [of_nat (num_args function)] @
     [of_nat (type_value (WasmFunction.result_type function))] @
     arg_type_bytes (take (num_args function) (locals function)) @
     le_bytes 4 0 @ le_bytes 4 0 @ le_bytes 4 0 @
     le_bytes 2 (count_locals function WASM_TYPE_I32 mod 2 ^ 16) @
     le_bytes 2 (count_locals function WASM_TYPE_I64 mod 2 ^ 16) @
     le_bytes 2 (count_locals function WASM_TYPE_F32 mod 2 ^ 16) @
     le_bytes 2 (count_locals function WASM_TYPE_F64 mod 2 ^ 16) @
     [0] @ [0]"

definition segment_header_bytes :: "WasmSegment \<Rightarrow> u8 list" where
  "segment_header_bytes segment =
     le_bytes 4 (unat (address segment)) @ le_bytes 4 0 @
     le_bytes 4 (size_seg segment mod 2 ^ 32) @ [1]"

definition preamble_bytes :: "WasmModule \<Rightarrow> u8 list" where
  "preamble_bytes m =
     [ucast (the (log_two_u32 (max_memory_size m)))] @ [DEFAULT_MEMORY_EXPORT] @
     le_bytes 2 (length (globals m) mod 2 ^ 16) @
     le_bytes 2 ((length (imports_m m) + length (functions_m m)) mod 2 ^ 16) @
     le_bytes 2 (length (segments m) mod 2 ^ 16)"

definition header_bytes :: "WasmModule \<Rightarrow> u8 list" where
  "header_bytes m =
     preamble_bytes m @
     concat (map global_header_bytes (globals m)) @
     concat (map import_header_bytes (imports_m m)) @
     concat (map function_header_bytes (functions_m m)) @
     concat (map segment_header_bytes (segments m))"

text \<open>
  What the header writer needs of a module: the arguments of a function are among its locals
  (otherwise it reads past them), and the memory size is not 1 (where \<^verbatim>\<open>log_two_u32\<close> calls
  \<^verbatim>\<open>__builtin_clz(0)\<close>).
\<close>

definition function_ok :: "WasmFunction \<Rightarrow> bool" where
  "function_ok function \<longleftrightarrow> num_args function \<le> length (locals function)"

definition module_ok :: "WasmModule \<Rightarrow> bool" where
  "module_ok m \<longleftrightarrow> max_memory_size m \<noteq> 1 \<and> list_all function_ok (functions_m m)"

text \<open>The tables \<^verbatim>\<open>before_module\<close> builds, named.\<close>

definition planned_function_table :: "WasmModule \<Rightarrow> u32 list" where
  "planned_function_table m =
     fst (plan_function_headers
            (skip_import_headers (of_nat (FUNC_HEADERS_OFFSET (length (globals m)))) (imports_m m))
            (functions_m m))"

definition planned_segment_table :: "WasmModule \<Rightarrow> u32 list" where
  "planned_segment_table m =
     fst (plan_segment_headers
            (snd (plan_function_headers
                    (skip_import_headers (of_nat (FUNC_HEADERS_OFFSET (length (globals m)))) (imports_m m))
                    (functions_m m)))
            (segments m))"

text \<open>A module with one global, one import, two functions and two segments.\<close>

definition sample_module2 :: WasmModule where
  "sample_module2 =
     \<lparr>max_memory_size = 0,
      globals = [\<lparr>type = WASM_TYPE_I32\<rparr>],
      imports_m = [\<lparr>args = [\<lparr>type = WASM_TYPE_I32\<rparr>], result_type = WASM_TYPE_VOID,
                    func_name = ''print''\<rparr>],
      functions_m = [\<lparr>num_args = 0, result_type = WASM_TYPE_VOID, locals = [],
                      exported = False, exported_name = []\<rparr>,
                     \<lparr>num_args = 2, result_type = WASM_TYPE_I32,
                      locals = [\<lparr>type = WASM_TYPE_I32\<rparr>, \<lparr>type = WASM_TYPE_I32\<rparr>, \<lparr>type = WASM_TYPE_F64\<rparr>],
                      exported = True, exported_name = ''add''\<rparr>],
      segments = [\<lparr>address = 0, data = [1, 2, 3, 4], size_seg = 4\<rparr>,
                  \<lparr>address = 16, data = [5], size_seg = 1\<rparr>]\<rparr>"

text \<open>
  What \<^verbatim>\<open>out_module_footer\<close> does is a sequence of steps, each of which may first patch
  the 32-bit field at a header position with the current buffer size and then appends
  bytes. A \<open>tail_item\<close> describes one step: the position of the field, if one is patched,
  and the bytes appended. \<open>tail_mem mem n items\<close> is the memory after the steps, started
  with the buffer size \<open>n\<close>.
\<close>

type_synonym tail_item = "nat option \<times> u8 list"

fun tail_mem :: "(nat \<Rightarrow> u8) \<Rightarrow> nat \<Rightarrow> tail_item list \<Rightarrow> (nat \<Rightarrow> u8)" where
  "tail_mem mem n [] = mem"
| "tail_mem mem n ((pos, bs) # items) =
     tail_mem
       (memcpy (case pos of None \<Rightarrow> mem | Some p \<Rightarrow> memcpy mem p (le_bytes 4 (n mod 2 ^ 32))) n bs)
       (n + length bs) items"

text \<open>The bytes the steps append, and the buffer size at which step \<open>k\<close> starts.\<close>

definition tail_bytes :: "tail_item list \<Rightarrow> u8 list" where
  "tail_bytes items = concat (map snd items)"

definition item_start :: "nat \<Rightarrow> tail_item list \<Rightarrow> nat \<Rightarrow> nat" where
  "item_start n items k = n + length (tail_bytes (take k items))"

text \<open>
  The cells the steps patch; \<open>fields_ok H items\<close>: the patched fields lie below \<open>H\<close> and no
  two of them overlap.
\<close>

fun item_cells :: "tail_item \<Rightarrow> nat set" where
  "item_cells (None, bs) = {}"
| "item_cells (Some p, bs) = {p..<p + 4}"

definition patch_cells :: "tail_item list \<Rightarrow> nat set" where
  "patch_cells items = (\<Union>item\<in>set items. item_cells item)"

fun fields_ok :: "nat \<Rightarrow> tail_item list \<Rightarrow> bool" where
  "fields_ok H [] = True"
| "fields_ok H (item # items) =
     (item_cells item \<subseteq> {0..<H} \<and> item_cells item \<inter> patch_cells items = {} \<and> fields_ok H items)"

text \<open>
  The payload of a segment as \<^verbatim>\<open>out_segment\<close> copies it, and the steps of the three loops
  of \<^verbatim>\<open>out_module_footer\<close>, with the header offset each loop advances.
\<close>

definition seg_bytes :: "WasmSegment \<Rightarrow> u8 list" where
  "seg_bytes segment = take (size_seg segment) (data segment)"

fun segment_items :: "nat \<Rightarrow> WasmSegment list \<Rightarrow> tail_item list" where
  "segment_items offset [] = []"
| "segment_items offset (segment # rest) =
     (Some (offset + SEGMENT_HEADER_DATA_OFFSET), seg_bytes segment) #
     segment_items (offset + SEGMENT_HEADER_SIZE) rest"

fun import_items :: "nat \<Rightarrow> WasmImport list \<Rightarrow> tail_item list" where
  "import_items offset [] = []"
| "import_items offset (import # rest) =
     (Some (offset + FUNC_HEADER_NAME_OFFSET (length (args import))), cstr_bytes (func_name import)) #
     import_items (offset + FUNC_HEADER_SIZE (length (args import))) rest"

fun function_items :: "nat \<Rightarrow> WasmFunction list \<Rightarrow> tail_item list" where
  "function_items offset [] = []"
| "function_items offset (function # rest) =
     (if exported function
      then (Some (offset + FUNC_HEADER_NAME_OFFSET (num_args function)),
            cstr_bytes (exported_name function))
      else (None, [])) #
     function_items (offset + FUNC_HEADER_SIZE (num_args function)) rest"

text \<open>The steps of the whole footer: segments, then imports, then functions.\<close>

definition footer_items :: "WasmModule \<Rightarrow> tail_item list" where
  "footer_items m =
     segment_items (segment_header_offset m 0) (segments m) @
     import_items (FUNC_HEADERS_OFFSET (length (globals m))) (imports_m m) @
     function_items (function_header_offset m 0) (functions_m m)"

text \<open>
  The layout of the tail: the payloads of the segments in declaration order, the names
  of the imports, the names of the exported functions, each name with its terminating
  zero; and where in a buffer of size \<open>n\<close> before the footer each of them starts.
\<close>

definition footer_tail :: "WasmModule \<Rightarrow> u8 list" where
  "footer_tail m =
     concat (map seg_bytes (segments m)) @
     concat (map (\<lambda>import. cstr_bytes (func_name import)) (imports_m m)) @
     concat (map (\<lambda>function. cstr_bytes (exported_name function))
               (filter exported (functions_m m)))"

definition segment_data_start :: "WasmModule \<Rightarrow> nat \<Rightarrow> nat \<Rightarrow> nat" where
  "segment_data_start m n s = n + length (concat (map seg_bytes (take s (segments m))))"

definition import_name_start :: "WasmModule \<Rightarrow> nat \<Rightarrow> nat \<Rightarrow> nat" where
  "import_name_start m n j =
     n + length (concat (map seg_bytes (segments m))) +
     length (concat (map (\<lambda>import. cstr_bytes (func_name import)) (take j (imports_m m))))"

definition function_name_start :: "WasmModule \<Rightarrow> nat \<Rightarrow> nat \<Rightarrow> nat" where
  "function_name_start m n i =
     n + length (concat (map seg_bytes (segments m))) +
     length (concat (map (\<lambda>import. cstr_bytes (func_name import)) (imports_m m))) +
     length (concat (map (\<lambda>function. cstr_bytes (exported_name function))
                       (filter exported (take i (functions_m m)))))"

text \<open>The position of the header of import \<open>j\<close>.\<close>

definition import_header_offset :: "WasmModule \<Rightarrow> nat \<Rightarrow> nat" where
  "import_header_offset m j =
     8 + 6 * length (globals m) + (\<Sum>import\<leftarrow>take j (imports_m m). 24 + length (args import))"

text \<open>
  A context as it stands before the footer of \<open>sample_module2\<close>: the 115 bytes of headers
  and five bytes of code, all zero, and the segment table of the header pass.
\<close>

definition sample_footer_ctx :: Context where
  "sample_footer_ctx =
     \<lparr>module = None,
      buf = \<lparr>start = (\<lambda>i. 0), size_buf = 120, capacity = INITIAL_OUTPUT_BUFFER_CAPACITY\<rparr>,
      function_num_exprs_offset = 0,
      function_header_offsets = [39, 63],
      segment_header_offsets = [89, 102]\<rparr>"

text \<open>
  The module of the end-to-end scenario: no globals, no imports, no segments, and one
  function without arguments, result or locals, exported as \<open>main\<close>. The maximal memory
  size is left open.
\<close>

definition scenario_module :: "u32 \<Rightarrow> WasmModule" where
  "scenario_module mem =
     \<lparr>max_memory_size = mem, globals = [], imports_m = [],
      functions_m = [\<lparr>num_args = 0, result_type = WASM_TYPE_VOID, locals = [],
                      exported = True, exported_name = ''main''\<rparr>],
      segments = []\<rparr>"

text \<open>
  Modelled from the spec: the parser that drives the callbacks is outside the source at
  hand. For a module of one exported function whose body is a single no-op it opens the
  module, opens the function, reports the no-op, closes the function with an expression
  count of 1, reports the export and closes the module, in this order.
\<close>

definition scenario_calls :: "(nat \<Rightarrow> u8) \<Rightarrow> opcode_values \<Rightarrow> WasmModule \<Rightarrow> Context \<Rightarrow> Context option" where
  "scenario_calls fresh ops m ctx = do {
     ctx \<leftarrow> before_module fresh m ctx;
     ctx \<leftarrow> before_function ops m 0 ctx;
     ctx \<leftarrow> after_nop ops ctx;
     ctx \<leftarrow> after_function m 0 1 ctx;
     ctx \<leftarrow> before_export m ctx;
     ctx \<leftarrow> after_export m 0 ctx;
     after_module m ctx
   }"

section \<open>The output buffer and the primitive writers\<close>

subsection \<open>Writes succeed on an allocated buffer\<close>

lemma grow_capacity_total:
  "0 < c \<Longrightarrow> \<exists>c'. grow_capacity c e = Some c' \<and> c \<le> c' \<and> e \<le> c'"
proof (induction "e - c" arbitrary: c rule: less_induct)
  case less
  show ?case
  proof (cases "c < e")
    case True
    with less.prems have "e - c * 2 < e - c" by simp
    moreover from less.prems have "0 < c * 2" by simp
    ultimately obtain c' where "grow_capacity (c * 2) e = Some c'" "c * 2 \<le> c'" "e \<le> c'"
      using less.hyps by blast
    with True show ?thesis by (subst grow_capacity.simps) simp
  next
    case False
    then show ?thesis by (subst grow_capacity.simps) simp
  qed
qed

lemma ensure_output_buffer_capacity_total:
  assumes "0 < capacity b"
  shows "\<exists>c'. ensure_output_buffer_capacity b e = Some (b\<lparr>capacity := c'\<rparr>) \<and>
           capacity b \<le> c' \<and> e \<le> c'"
proof (cases "capacity b < e")
  case True
  from assms have "0 < capacity b * 2" by simp
  then obtain c' where "grow_capacity (capacity b * 2) e = Some c'" "capacity b * 2 \<le> c'" "e \<le> c'"
    using grow_capacity_total by blast
  with True show ?thesis by (auto simp: ensure_output_buffer_capacity_def)
next
  case False
  then have "ensure_output_buffer_capacity b e = Some (b\<lparr>capacity := capacity b\<rparr>)"
    by (simp add: ensure_output_buffer_capacity_def)
  with False show ?thesis by (intro exI[of _ "capacity b"]) simp
qed

lemma out_data_total:
  assumes "offset \<le> size_buf b" and "0 < capacity b"
  shows "\<exists>b'. out_data b offset src = Some (b', offset + length src) \<and> patched b offset src b'"
proof -
  obtain c' where "ensure_output_buffer_capacity b (offset + length src) = Some (b\<lparr>capacity := c'\<rparr>)"
      "capacity b \<le> c'"
    using ensure_output_buffer_capacity_total[OF assms(2)] by blast
  with assms(1) show ?thesis by (simp add: out_data_def patched_def)
qed

lemma out_data_None: "\<not> offset \<le> size_buf b \<Longrightarrow> out_data b offset src = None"
  by (simp add: out_data_def)

text \<open>The pattern shared by the appending writers.\<close>

lemma append_total:
  assumes "0 < capacity b"
  shows "\<exists>b'. (out_data b (size_buf b) bs \<bind> (\<lambda>(b', n). Some (b'\<lparr>size_buf := n\<rparr>))) = Some b' \<and>
           appended b bs b'"
proof -
  obtain b1 where "out_data b (size_buf b) bs = Some (b1, size_buf b + length bs)"
      "patched b (size_buf b) bs b1"
    using out_data_total[OF order_refl assms] by blast
  then show ?thesis by (simp add: patched_def appended_def)
qed

lemma unat_u8_lt: "unat (v::u8) < 256"
  using unsigned_less[of v, where 'a=nat] by simp

lemma le_bytes_1: "le_bytes 1 (unat (v::u8)) = [v]"
  using unat_u8_lt[of v] by (simp add: One_nat_def)

lemma length_le_bytes [simp]: "length (le_bytes n v) = n"
  by (induction n arbitrary: v) auto

lemma out_u8_total: "0 < capacity b \<Longrightarrow> \<exists>b'. out_u8 b v = Some b' \<and> appended b [v] b'"
  unfolding out_u8_def le_bytes_1 by (rule append_total)

lemma out_u16_total:
  "0 < capacity b \<Longrightarrow> \<exists>b'. out_u16 b v = Some b' \<and> appended b (le_bytes 2 (unat v)) b'"
  unfolding out_u16_def by (rule append_total)

lemma out_u32_total:
  "0 < capacity b \<Longrightarrow> \<exists>b'. out_u32 b v = Some b' \<and> appended b (le_bytes 4 (unat v)) b'"
  unfolding out_u32_def by (rule append_total)

lemma out_u64_total:
  "0 < capacity b \<Longrightarrow> \<exists>b'. out_u64 b v = Some b' \<and> appended b (le_bytes 8 (unat v)) b'"
  unfolding out_u64_def by (rule append_total)

lemma out_f32_total:
  "0 < capacity b \<Longrightarrow> \<exists>b'. out_f32 b v = Some b' \<and> appended b (le_bytes 4 (unat v)) b'"
  unfolding out_f32_def by (rule append_total)

lemma out_f64_total:
  "0 < capacity b \<Longrightarrow> \<exists>b'. out_f64 b v = Some b' \<and> appended b (le_bytes 8 (unat v)) b'"
  unfolding out_f64_def by (rule append_total)

lemma out_cstr_total:
  "0 < capacity b \<Longrightarrow> \<exists>b'. out_cstr b s = Some b' \<and> appended b (cstr_bytes s) b'"
  unfolding out_cstr_def by (rule append_total)

lemma out_opcode_total:
  "0 < capacity b \<Longrightarrow> \<exists>b'. out_opcode b opcode = Some b' \<and> appended b [word_of_int opcode] b'"
  unfolding out_opcode_def by (rule out_u8_total)

lemma out_u8_at_total:
  "unat offset \<le> size_buf b \<Longrightarrow> 0 < capacity b \<Longrightarrow>
   \<exists>b'. out_u8_at b offset v = Some b' \<and> patched b (unat offset) [v] b'"
  unfolding out_u8_at_def le_bytes_1 using out_data_total[of "unat offset" b "[v]"] by auto

lemma out_u32_at_total:
  "unat offset \<le> size_buf b \<Longrightarrow> 0 < capacity b \<Longrightarrow>
   \<exists>b'. out_u32_at b offset v = Some b' \<and> patched b (unat offset) (le_bytes 4 (unat v)) b'"
  using out_data_total[of "unat offset" b "le_bytes 4 (unat v)"] by (auto simp: out_u32_at_def)

lemma out_u8_at_None: "\<not> unat offset \<le> size_buf b \<Longrightarrow> out_u8_at b offset v = None"
  by (simp add: out_u8_at_def out_data_None)

lemma out_u32_at_None: "\<not> unat offset \<le> size_buf b \<Longrightarrow> out_u32_at b offset v = None"
  by (simp add: out_u32_at_def out_data_None)

lemma appended_capacity: "appended b bs b' \<Longrightarrow> 0 < capacity b \<Longrightarrow> 0 < capacity b'"
  by (simp add: appended_def)

lemma patched_capacity: "patched b offset bs b' \<Longrightarrow> 0 < capacity b \<Longrightarrow> 0 < capacity b'"
  by (simp add: patched_def)

lemma memcpy_memcpy:
  "memcpy (memcpy mem offset bs) (offset + length bs) cs = memcpy mem offset (bs @ cs)"
  by (rule ext) (auto simp: memcpy_def nth_append)

lemma appended_trans:
  "appended b bs b1 \<Longrightarrow> appended b1 cs b2 \<Longrightarrow> appended b (bs @ cs) b2"
  by (simp add: appended_def memcpy_memcpy)

lemma memcpy_Nil [simp]: "memcpy mem offset [] = mem"
  by (rule ext) (auto simp add: memcpy_def)

lemma appended_Nil: "appended b [] b"
  by (simp add: appended_def)

lemma map_memcpy_below: "n \<le> offset \<Longrightarrow> map (memcpy mem offset bs) [0..<n] = map mem [0..<n]"
  by (simp add: memcpy_def)

lemma map_memcpy_at: "map (memcpy mem offset bs) [offset..<offset + length bs] = bs"
  by (rule nth_equalityI) (simp_all add: memcpy_def)

lemma appended_contents: "appended b bs b' \<Longrightarrow> contents b' = contents b @ bs"
proof -
  assume a: "appended b bs b'"
  have "[0..<size_buf b + length bs] = [0..<size_buf b] @ [size_buf b..<size_buf b + length bs]"
    by (rule upt_add_eq_append) simp
  then have "contents b' = map (start b') [0..<size_buf b] @ map (start b') [size_buf b..<size_buf b + length bs]"
    using a by (simp only: contents_def appended_def map_append)
  also have "\<dots> = contents b @ bs"
    using a by (simp only: appended_def map_memcpy_below[OF order_refl] map_memcpy_at contents_def)
  finally show ?thesis .
qed

subsection \<open>The variable-length integer writer\<close>

lemma unat_drop7: "unat (drop_bit 7 (v::u32)) = unat v div 128"
  unfolding unat_drop_bit_eq by (simp add: drop_bit_eq_div)

lemma drop7_zero: "(drop_bit 7 (v::u32) = 0) = (unat v div 128 = 0)"
  using unat_drop7[of v] by (metis unat_eq_zero)

lemma and_7f: "(w :: 'a::len word) AND 0x7f = take_bit 7 w"
  using take_bit_eq_mask[of 7 w] by (simp add: mask_eq_exp_minus_1)

lemma unat_low7: "unat ((v::u32) AND 0x7f) = unat v mod 128"
  unfolding and_7f unsigned_take_bit_eq by (simp add: take_bit_eq_mod)

lemma unat_low7_byte: "unat (ucast ((v::u32) AND 0x7f) :: u8) = unat v mod 128"
proof -
  have "unat (ucast (v AND 0x7f) :: u8) = take_bit 8 (unat v mod 128)"
    by (simp only: unsigned_ucast_eq unat_low7) simp
  also have "\<dots> = unat v mod 128"
    by (rule take_bit_nat_eq_self) (simp add: less_trans[OF mod_less_divisor])
  finally show ?thesis .
qed

lemma low_and_7f: "(ucast ((v::u32) AND 0x7f) :: u8) AND 0x7f = ucast (v AND 0x7f)"
  unfolding and_7f by (rule bit_word_eqI) (auto simp add: bit_simps)

lemma x80: "(0x80 :: u8) = 2 ^ 7" by simp

lemma low_or_and_7f: "((ucast ((v::u32) AND 0x7f) :: u8) OR 0x80) AND 0x7f = ucast (v AND 0x7f)"
  unfolding and_7f x80 by (rule bit_word_eqI) (auto simp add: bit_simps)

lemma low_bit7: "\<not> bit (ucast ((v::u32) AND 0x7f) :: u8) 7"
  unfolding and_7f by (simp add: bit_simps)

lemma low_or_bit7: "bit ((ucast ((v::u32) AND 0x7f) :: u8) OR 0x80) 7"
  unfolding and_7f x80 by (simp add: bit_simps)

lemma bits_needed_div: "2 ^ k \<le> n \<Longrightarrow> bits_needed n = bits_needed (n div 2 ^ k) + k"
proof (induction k arbitrary: n)
  case 0
  then show ?case by simp
next
  case (Suc k)
  have p: "(1::nat) \<le> 2 ^ k" by simp
  from Suc.prems have q: "2 * 2 ^ k \<le> n" by simp
  from p q have n2: "\<not> n < 2" "2 ^ k \<le> n div 2" by linarith+
  have "bits_needed n = Suc (bits_needed (n div 2))"
    using n2(1) by (subst bits_needed.simps) simp
  also have "bits_needed (n div 2) = bits_needed (n div 2 div 2 ^ k) + k"
    by (rule Suc.IH[OF n2(2)])
  also have "n div 2 div 2 ^ k = n div 2 ^ Suc k"
    by (simp add: div_mult2_eq)
  finally show ?case by simp
qed

lemma bits_needed_le: "n < 2 ^ k \<Longrightarrow> 0 < k \<Longrightarrow> bits_needed n \<le> k"
proof (induction k arbitrary: n)
  case 0
  then show ?case by simp
next
  case (Suc k)
  show ?case
  proof (cases "n < 2")
    case True
    then show ?thesis by (subst bits_needed.simps) simp
  next
    case False
    with Suc.prems have "0 < k" by (cases k) auto
    moreover from Suc.prems have "n div 2 < 2 ^ k" by auto
    ultimately have "bits_needed (n div 2) \<le> k" by (rule Suc.IH[rotated])
    with False show ?thesis by (subst bits_needed.simps) simp
  qed
qed

lemma bits_needed_pos: "0 < bits_needed n"
  by (subst bits_needed.simps) simp

lemma bits_needed_small: "n < 128 \<Longrightarrow> (bits_needed n + 6) div 7 = 1"
  using bits_needed_le[of n 7] bits_needed_pos[of n] by simp

lemma length_leb128_bytes: "length (leb128_bytes v) = (bits_needed (unat v) + 6) div 7"
proof (induction v rule: leb128_bytes.induct)
  case (1 v)
  show ?case
  proof (cases "drop_bit 7 v = 0")
    case True
    then have "unat v < 128" by (simp add: drop7_zero)
    with True show ?thesis
      by (subst leb128_bytes.simps) (simp add: bits_needed_small)
  next
    case False
    then have "2 ^ 7 \<le> unat v" by (simp add: drop7_zero)
    then have "bits_needed (unat v) = bits_needed (unat v div 2 ^ 7) + 7"
      by (rule bits_needed_div)
    moreover have "length (leb128_bytes (drop_bit 7 v)) = (bits_needed (unat (drop_bit 7 v)) + 6) div 7"
      using False by (intro "1.IH") auto
    ultimately show ?thesis
      using False by (subst leb128_bytes.simps) (simp add: unat_drop7)
  qed
qed

lemma length_leb128_bytes_le: "length (leb128_bytes v) \<le> 5"
proof -
  have "unat v < 2 ^ 32" using unsigned_less[of v] by simp
  then have "bits_needed (unat v) \<le> 32" by (rule bits_needed_le) simp
  then show ?thesis unfolding length_leb128_bytes by simp
qed

lemma length_leb128_bytes_pos: "0 < length (leb128_bytes v)"
  by (subst leb128_bytes.simps) (simp add: Let_def)

lemma leb128_loop_bytes:
  "length ds + length (leb128_bytes v) \<le> 5 \<Longrightarrow> leb128_loop v ds = Some (ds @ leb128_bytes v)"
proof (induction v arbitrary: ds rule: leb128_bytes.induct)
  case (1 v)
  from "1.prems" length_leb128_bytes_pos[of v] have lt: "length ds < 5"
    by (cases "leb128_bytes v") simp_all
  show ?case
  proof (cases "drop_bit 7 v = 0")
    case True
    with lt show ?thesis
      by (subst leb128_loop.simps, subst leb128_bytes.simps) (simp add: Let_def)
  next
    case False
    let ?b = "(ucast (v AND 0x7f) :: u8) OR 0x80"
    have "length (ds @ [?b]) + length (leb128_bytes (drop_bit 7 v)) \<le> 5"
      using "1.prems" False by (subst (asm) leb128_bytes.simps) (simp add: Let_def)
    then have "leb128_loop (drop_bit 7 v) (ds @ [?b]) = Some ((ds @ [?b]) @ leb128_bytes (drop_bit 7 v))"
      using False by (intro "1.IH") auto
    with lt False show ?thesis
      by (subst leb128_loop.simps, subst leb128_bytes.simps) (simp add: Let_def)
  qed
qed

lemma leb128_loop_total: "leb128_loop v [] = Some (leb128_bytes v)"
  using leb128_loop_bytes[of "[]" v] length_leb128_bytes_le[of v] by simp

lemma leb128_decode_bytes: "leb128_decode (leb128_bytes v) = unat v"
proof (induction v rule: leb128_bytes.induct)
  case (1 v)
  show ?case
  proof (cases "drop_bit 7 v = 0")
    case True
    then have "unat v < 128" by (simp add: drop7_zero)
    with True show ?thesis
      by (subst leb128_bytes.simps) (simp add: low_and_7f unat_low7_byte)
  next
    case False
    then have "leb128_decode (leb128_bytes (drop_bit 7 v)) = unat (drop_bit 7 v)"
      by (intro "1.IH") auto
    with False show ?thesis
      by (subst leb128_bytes.simps) (simp add: low_or_and_7f unat_low7_byte unat_drop7)
  qed
qed

lemma leb128_bytes_continuation:
  "i < length (leb128_bytes v) \<Longrightarrow> bit (leb128_bytes v ! i) 7 \<longleftrightarrow> Suc i < length (leb128_bytes v)"
proof (induction v arbitrary: i rule: leb128_bytes.induct)
  case (1 v)
  show ?case
  proof (cases "drop_bit 7 v = 0")
    case True
    with "1.prems" show ?thesis
      by (subst (asm) leb128_bytes.simps, subst leb128_bytes.simps, subst leb128_bytes.simps)
         (simp add: low_bit7)
  next
    case False
    have eq: "leb128_bytes v = ((ucast (v AND 0x7f) :: u8) OR 0x80) # leb128_bytes (drop_bit 7 v)"
      using False by (subst leb128_bytes.simps) (simp add: Let_def)
    show ?thesis
    proof (cases i)
      case 0
      then show ?thesis using length_leb128_bytes_pos[of "drop_bit 7 v"]
        unfolding eq by (simp add: low_or_bit7)
    next
      case (Suc j)
      with "1.prems" have "j < length (leb128_bytes (drop_bit 7 v))" unfolding eq by simp
      then have "bit (leb128_bytes (drop_bit 7 v) ! j) 7 \<longleftrightarrow> Suc j < length (leb128_bytes (drop_bit 7 v))"
        using False by (intro "1.IH") auto
      then show ?thesis unfolding eq Suc by simp
    qed
  qed
qed

lemma out_leb128_total:
  "0 < capacity b \<Longrightarrow> \<exists>b'. out_leb128 b v = Some b' \<and> appended b (leb128_bytes v) b'"
  using append_total[of b "leb128_bytes v"] by (simp add: out_leb128_def leb128_loop_total)

lemma le_bytes_numeral:
  "le_bytes (numeral k) v = of_nat (v mod 256) # le_bytes (pred_numeral k) (v div 256)"
proof -
  have "le_bytes (numeral k) v = le_bytes (Suc (pred_numeral k)) v"
    by (simp only: numeral_eq_Suc)
  then show ?thesis by (simp only: le_bytes.simps)
qed

lemma out_segment_total:
  assumes "0 < capacity b" and "segment_ok s"
  shows "\<exists>b'. out_segment b s = Some b' \<and> appended b (take (size_seg s) (data s)) b'"
proof -
  obtain c' where "ensure_output_buffer_capacity b (size_buf b + size_seg s) = Some (b\<lparr>capacity := c'\<rparr>)"
      "capacity b \<le> c'"
    using ensure_output_buffer_capacity_total[OF assms(1)] by blast
  with assms(2) show ?thesis
    by (simp add: out_segment_def wasm_copy_segment_data_def appended_def segment_ok_def Let_def)
qed

lemma out_write_total:
  "0 < capacity b \<Longrightarrow> write_ok w \<Longrightarrow> \<exists>b'. out_write b w = Some b' \<and> appended b (write_bytes w) b'"
  by (cases w)
     (simp_all add: out_u8_total out_u16_total out_u32_total out_u64_total out_f32_total
        out_f64_total out_opcode_total out_leb128_total out_cstr_total out_segment_total)

lemma out_writes_total:
  "0 < capacity b \<Longrightarrow> \<forall>w\<in>set ws. write_ok w \<Longrightarrow>
   \<exists>b'. out_writes b ws = Some b' \<and> appended b (concat (map write_bytes ws)) b'"
proof (induction ws arbitrary: b)
  case Nil
  then show ?case by (simp add: appended_Nil)
next
  case (Cons w ws)
  then obtain b1 where b1: "out_write b w = Some b1" "appended b (write_bytes w) b1"
    using out_write_total[of b w] by auto
  with Cons.prems have "0 < capacity b1" by (auto dest: appended_capacity)
  moreover from Cons.prems have "\<forall>w\<in>set ws. write_ok w" by simp
  ultimately obtain b2 where b2: "out_writes b1 ws = Some b2" "appended b1 (concat (map write_bytes ws)) b2"
    using Cons.IH[of b1] by blast
  from b1 b2 show ?case by (auto intro: appended_trans)
qed

lemma memcpy_outside: "\<not> (offset \<le> i \<and> i < offset + length bs) \<Longrightarrow> memcpy mem offset bs i = mem i"
  by (auto simp add: memcpy_def)

lemma memcpy_inside: "i < length bs \<Longrightarrow> memcpy mem offset bs (offset + i) = bs ! i"
  by (simp add: memcpy_def)

lemma patched_bytes_at: "patched b offset bs b' \<Longrightarrow> bytes_at b' offset (length bs) = bs"
  by (simp add: patched_def bytes_at_def map_memcpy_at)

subsection \<open>Appends and patches\<close>

text \<open>
  Claim C3. On an allocated buffer every sequence of appending writer calls succeeds, and
  afterwards the visible content is the content before followed by the byte sequences of the
  calls in call order (so, from an empty buffer, exactly their concatenation). A patch
  \<^verbatim>\<open>out_u8_at\<close> or \<^verbatim>\<open>out_u32_at\<close> at an offset up to the current size succeeds; whenever a
  patch returns, the size is what it was, the targeted bytes hold the value, and every byte
  outside the targeted range is what it was.
\<close>

theorem buffer_append_and_patch:
  assumes "0 < capacity b" and "\<forall>w\<in>set ws. write_ok w"
  shows "(\<exists>b'. out_writes b ws = Some b' \<and>
            contents b' = contents b @ concat (map write_bytes ws) \<and>
            size_buf b' = size_buf b + length (concat (map write_bytes ws))) \<and>
         (\<forall>offset v. unat offset \<le> size_buf b \<longrightarrow> (\<exists>b'. out_u8_at b offset v = Some b')) \<and>
         (\<forall>offset v b'. out_u8_at b offset v = Some b' \<longrightarrow>
            size_buf b' = size_buf b \<and> start b' (unat offset) = v \<and>
            (\<forall>i. i \<noteq> unat offset \<longrightarrow> start b' i = start b i)) \<and>
         (\<forall>offset v. unat offset \<le> size_buf b \<longrightarrow> (\<exists>b'. out_u32_at b offset v = Some b')) \<and>
         (\<forall>offset v b'. out_u32_at b offset v = Some b' \<longrightarrow>
            size_buf b' = size_buf b \<and> bytes_at b' (unat offset) 4 = le_bytes 4 (unat v) \<and>
            (\<forall>i. \<not> (unat offset \<le> i \<and> i < unat offset + 4) \<longrightarrow> start b' i = start b i))"
proof (intro conjI allI impI)
  obtain b' where "out_writes b ws = Some b'" "appended b (concat (map write_bytes ws)) b'"
    using out_writes_total[OF assms] by blast
  then show "\<exists>b'. out_writes b ws = Some b' \<and>
            contents b' = contents b @ concat (map write_bytes ws) \<and>
            size_buf b' = size_buf b + length (concat (map write_bytes ws))"
    using appended_contents[of b _ b'] by (auto simp: appended_def)
next
  fix offset :: u32 and v :: u8
  assume "unat offset \<le> size_buf b"
  then show "\<exists>b'. out_u8_at b offset v = Some b'"
    using out_u8_at_total[OF _ assms(1)] by blast
next
  fix offset :: u32 and v :: u32
  assume "unat offset \<le> size_buf b"
  then show "\<exists>b'. out_u32_at b offset v = Some b'"
    using out_u32_at_total[OF _ assms(1)] by blast
next
  fix offset :: u32 and v :: u8 and b'
  assume s: "out_u8_at b offset v = Some b'"
  then have "unat offset \<le> size_buf b" using out_u8_at_None[of offset b v] by fastforce
  then have p: "patched b (unat offset) [v] b'"
    using out_u8_at_total[OF _ assms(1), of offset v] s by auto
  then show "size_buf b' = size_buf b" by (simp add: patched_def)
  from p show "start b' (unat offset) = v" by (simp add: patched_def memcpy_def)
  fix i assume "i \<noteq> unat offset"
  with p show "start b' i = start b i" by (simp add: patched_def memcpy_outside)
next
  fix offset :: u32 and v :: u32 and b'
  assume s: "out_u32_at b offset v = Some b'"
  then have "unat offset \<le> size_buf b" using out_u32_at_None[of offset b v] by fastforce
  then have p: "patched b (unat offset) (le_bytes 4 (unat v)) b'"
    using out_u32_at_total[OF _ assms(1), of offset v] s by auto
  then show "size_buf b' = size_buf b" by (simp add: patched_def)
  from patched_bytes_at[OF p] show "bytes_at b' (unat offset) 4 = le_bytes 4 (unat v)" by simp
  fix i assume "\<not> (unat offset \<le> i \<and> i < unat offset + 4)"
  with p show "start b' i = start b i" by (simp add: patched_def memcpy_outside)
qed

theorem buffer_append_and_patch_witness:
  "0 < capacity \<lparr>start = (\<lambda>i. 0), size_buf = 4, capacity = 8\<rparr> \<and>
   list_all write_ok
     [Write_u8 7, Write_u16 0x0102, Write_segment \<lparr>address = 0, data = [5, 6], size_seg = 2\<rparr>] \<and>
   (\<exists>b'. out_writes \<lparr>start = (\<lambda>i. 0), size_buf = 4, capacity = 8\<rparr>
            [Write_u8 7, Write_u16 0x0102, Write_segment \<lparr>address = 0, data = [5, 6], size_seg = 2\<rparr>] = Some b' \<and>
          contents b' = [0, 0, 0, 0, 7, 2, 1, 5, 6]) \<and>
   (\<exists>b'. out_u8_at \<lparr>start = (\<lambda>i. 0), size_buf = 4, capacity = 8\<rparr> 1 9 = Some b' \<and>
          size_buf b' = 4 \<and> start b' 1 = 9 \<and> start b' 2 = 0) \<and>
   (\<exists>b'. out_u32_at \<lparr>start = (\<lambda>i. 0), size_buf = 4, capacity = 8\<rparr> 0 0x04030201 = Some b' \<and>
          size_buf b' = 4 \<and> bytes_at b' 0 4 = [1, 2, 3, 4] \<and> start b' 4 = 0)"
proof -
  let ?b = "\<lparr>start = (\<lambda>i. 0), size_buf = 4, capacity = 8\<rparr>"
  let ?ws = "[Write_u8 7, Write_u16 0x0102, Write_segment \<lparr>address = 0, data = [5, 6], size_seg = 2\<rparr>]"
  have h1: "0 < capacity ?b" by simp
  have h2: "\<forall>w\<in>set ?ws. write_ok w" by (simp add: segment_ok_def)
  note t = buffer_append_and_patch[OF h1 h2]
  have c: "contents ?b = [0, 0, 0, 0]" by (simp add: contents_def upt_rec)
  have w: "concat (map write_bytes ?ws) = [7, 2, 1, 5, 6]" by (simp add: le_bytes_numeral)
  from t[THEN conjunct1] have a: "\<exists>b'. out_writes ?b ?ws = Some b' \<and> contents b' = [0, 0, 0, 0, 7, 2, 1, 5, 6]"
    unfolding c w by auto
  have "\<exists>b'. out_u8_at ?b 1 9 = Some b'"
    by (rule t[THEN conjunct2, THEN conjunct1, rule_format]) simp
  then obtain b8 where b8: "out_u8_at ?b 1 9 = Some b8" ..
  from t[THEN conjunct2, THEN conjunct2, THEN conjunct1, rule_format, OF b8]
  have "size_buf b8 = 4 \<and> start b8 1 = 9 \<and> start b8 2 = 0" by simp
  with b8 have p8: "\<exists>b'. out_u8_at ?b 1 9 = Some b' \<and> size_buf b' = 4 \<and> start b' 1 = 9 \<and> start b' 2 = 0"
    by (intro exI[of _ b8]) simp
  have "\<exists>b'. out_u32_at ?b 0 0x04030201 = Some b'"
    by (rule t[THEN conjunct2, THEN conjunct2, THEN conjunct2, THEN conjunct1, rule_format]) simp
  then obtain b32 where b32: "out_u32_at ?b 0 0x04030201 = Some b32" ..
  from t[THEN conjunct2, THEN conjunct2, THEN conjunct2, THEN conjunct2, rule_format, OF b32]
  have "size_buf b32 = 4 \<and> bytes_at b32 0 4 = [1, 2, 3, 4] \<and> start b32 4 = 0"
    by (simp add: le_bytes_numeral)
  with b32 have p32: "\<exists>b'. out_u32_at ?b 0 0x04030201 = Some b' \<and>
          size_buf b' = 4 \<and> bytes_at b' 0 4 = [1, 2, 3, 4] \<and> start b' 4 = 0"
    by (intro exI[of _ b32]) simp
  have h2': "list_all write_ok ?ws" by (simp add: segment_ok_def)
  from h1 h2' a p8 p32 show ?thesis by (intro conjI)
qed

subsection \<open>The encoding of variable-length integers\<close>

text \<open>
  Claim C2. For every 32-bit value \<open>v\<close> the loop of \<^verbatim>\<open>out_leb128\<close> returns a byte
  sequence that decodes to \<open>v\<close> as base-128 with the low group first, whose bytes have the
  high bit set exactly when another byte follows, of length 1 when \<open>v < 128\<close>, of length at
  most 5, and of length \<open>\<lceil>bits_needed v / 7\<rceil>\<close>; \<^verbatim>\<open>out_leb128\<close> appends exactly these bytes
  to an allocated buffer.
\<close>

theorem out_leb128_roundtrip:
  fixes v :: u32
  shows "\<exists>bs. leb128_loop v [] = Some bs \<and>
           leb128_decode bs = unat v \<and>
           (\<forall>i<length bs. bit (bs ! i) 7 \<longleftrightarrow> Suc i < length bs) \<and>
           (unat v < 128 \<longrightarrow> length bs = 1) \<and>
           length bs \<le> 5 \<and>
           length bs = (bits_needed (unat v) + 6) div 7 \<and>
           (0 < capacity b \<longrightarrow> (\<exists>b'. out_leb128 b v = Some b' \<and> contents b' = contents b @ bs))"
proof (intro exI[of _ "leb128_bytes v"] conjI allI impI)
  show "leb128_loop v [] = Some (leb128_bytes v)" by (rule leb128_loop_total)
  show "leb128_decode (leb128_bytes v) = unat v" by (rule leb128_decode_bytes)
  show "length (leb128_bytes v) \<le> 5" by (rule length_leb128_bytes_le)
  show "length (leb128_bytes v) = (bits_needed (unat v) + 6) div 7" by (rule length_leb128_bytes)
  show "length (leb128_bytes v) = 1" if "unat v < 128"
    using that by (simp add: length_leb128_bytes bits_needed_small)
  show "bit (leb128_bytes v ! i) 7 \<longleftrightarrow> Suc i < length (leb128_bytes v)" if "i < length (leb128_bytes v)" for i
    using that by (rule leb128_bytes_continuation)
  show "\<exists>b'. out_leb128 b v = Some b' \<and> contents b' = contents b @ leb128_bytes v" if "0 < capacity b"
    using out_leb128_total[OF that, of v] by (auto dest: appended_contents)
qed

theorem out_leb128_roundtrip_witness:
  "unat (5 :: u32) < 128 \<and> 0 < capacity \<lparr>start = (\<lambda>i. 0), size_buf = 0, capacity = 8\<rparr> \<and>
   (\<exists>bs. leb128_loop 5 [] = Some bs \<and> leb128_decode bs = 5 \<and> length bs = 1 \<and>
      \<not> bit (bs ! 0) 7 \<and>
      (\<exists>b'. out_leb128 \<lparr>start = (\<lambda>i. 0), size_buf = 0, capacity = 8\<rparr> 5 = Some b' \<and> contents b' = bs))"
proof -
  let ?b = "\<lparr>start = (\<lambda>i. 0), size_buf = 0, capacity = 8\<rparr>"
  have h1: "unat (5 :: u32) < 128" by simp
  have h2: "0 < capacity ?b" by simp
  have h3: "contents ?b = []" by (simp add: contents_def)
  from out_leb128_roundtrip[of 5 ?b] obtain bs where
    bs1: "leb128_loop 5 [] = Some bs" and bs2: "leb128_decode bs = unat (5 :: u32)" and
    bs3: "\<forall>i<length bs. bit (bs ! i) 7 \<longleftrightarrow> Suc i < length bs" and
    bs4: "unat (5 :: u32) < 128 \<longrightarrow> length bs = 1" and
    bs5: "0 < capacity ?b \<longrightarrow> (\<exists>b'. out_leb128 ?b 5 = Some b' \<and> contents b' = contents ?b @ bs)"
    by (elim exE conjE)
  from bs4 h1 have l: "length bs = 1" by (rule mp)
  with bs3 have nb: "\<not> bit (bs ! 0) 7" by simp
  from bs5 h2 have "\<exists>b'. out_leb128 ?b 5 = Some b' \<and> contents b' = contents ?b @ bs" by (rule mp)
  then have ob: "\<exists>b'. out_leb128 ?b 5 = Some b' \<and> contents b' = bs" unfolding h3 by simp
  from bs2 have d: "leb128_decode bs = 5" by simp
  from h1 h2 bs1 d l nb ob show ?thesis by (intro conjI exI[of _ bs])
qed

section \<open>The parser callbacks\<close>

subsection \<open>Each callback succeeds on an allocated buffer\<close>

lemma extends_refl [simp]: "extends b b"
  by (simp add: extends_def)

lemma extends_trans: "extends b b1 \<Longrightarrow> extends b1 b2 \<Longrightarrow> extends b b2"
  by (auto simp: extends_def)

lemma appended_extends: "appended b bs b' \<Longrightarrow> extends b b'"
  by (simp add: appended_def extends_def)

lemma patched_extends: "patched b offset bs b' \<Longrightarrow> extends b b'"
  by (simp add: patched_def extends_def)

lemma extends_capacity: "extends b b' \<Longrightarrow> 0 < capacity b \<Longrightarrow> 0 < capacity b'"
  by (simp add: extends_def)

lemma out_u8_SomeD: "out_u8 b v = Some b' \<Longrightarrow> 0 < capacity b \<Longrightarrow> appended b [v] b'"
  using out_u8_total[of b v] by auto

lemma out_u32_SomeD:
  "out_u32 b v = Some b' \<Longrightarrow> 0 < capacity b \<Longrightarrow> appended b (le_bytes 4 (unat v)) b'"
  using out_u32_total[of b v] by auto

lemma out_u64_SomeD:
  "out_u64 b v = Some b' \<Longrightarrow> 0 < capacity b \<Longrightarrow> appended b (le_bytes 8 (unat v)) b'"
  using out_u64_total[of b v] by auto

lemma out_f32_SomeD:
  "out_f32 b v = Some b' \<Longrightarrow> 0 < capacity b \<Longrightarrow> appended b (le_bytes 4 (unat v)) b'"
  using out_f32_total[of b v] by auto

lemma out_f64_SomeD:
  "out_f64 b v = Some b' \<Longrightarrow> 0 < capacity b \<Longrightarrow> appended b (le_bytes 8 (unat v)) b'"
  using out_f64_total[of b v] by auto

lemma out_opcode_SomeD:
  "out_opcode b opcode = Some b' \<Longrightarrow> 0 < capacity b \<Longrightarrow> appended b [word_of_int opcode] b'"
  using out_opcode_total[of b opcode] by auto

lemma out_leb128_SomeD:
  "out_leb128 b v = Some b' \<Longrightarrow> 0 < capacity b \<Longrightarrow> appended b (leb128_bytes v) b'"
  using out_leb128_total[of b v] by auto

lemma out_u8_at_SomeD:
  "out_u8_at b offset v = Some b' \<Longrightarrow> 0 < capacity b \<Longrightarrow>
   unat offset \<le> size_buf b \<and> patched b (unat offset) [v] b'"
  using out_u8_at_total[of offset b v] out_u8_at_None[of offset b v] by fastforce

lemma out_u32_at_SomeD:
  "out_u32_at b offset v = Some b' \<Longrightarrow> 0 < capacity b \<Longrightarrow>
   unat offset \<le> size_buf b \<and> patched b (unat offset) (le_bytes 4 (unat v)) b'"
  using out_u32_at_total[of offset b v] out_u32_at_None[of offset b v] by fastforce


lemma before_binary_total:
  assumes "0 < capacity (buf ctx)"
  shows "\<exists>b'. before_binary opcode ctx = Some (ctx\<lparr>buf := b'\<rparr>) \<and>
           appended (buf ctx) [word_of_int (opcode)] b'"
  using out_opcode_total[OF assms, of "opcode"] by (auto simp: before_binary_def)

lemma before_compare_total:
  assumes "0 < capacity (buf ctx)"
  shows "\<exists>b'. before_compare opcode ctx = Some (ctx\<lparr>buf := b'\<rparr>) \<and>
           appended (buf ctx) [word_of_int (opcode)] b'"
  using out_opcode_total[OF assms, of "opcode"] by (auto simp: before_compare_def)

lemma before_convert_total:
  assumes "0 < capacity (buf ctx)"
  shows "\<exists>b'. before_convert opcode ctx = Some (ctx\<lparr>buf := b'\<rparr>) \<and>
           appended (buf ctx) [word_of_int (opcode)] b'"
  using out_opcode_total[OF assms, of "opcode"] by (auto simp: before_convert_def)

lemma before_unary_total:
  assumes "0 < capacity (buf ctx)"
  shows "\<exists>b'. before_unary opcode ctx = Some (ctx\<lparr>buf := b'\<rparr>) \<and>
           appended (buf ctx) [word_of_int (opcode)] b'"
  using out_opcode_total[OF assms, of "opcode"] by (auto simp: before_unary_def)

lemma after_nop_total:
  assumes "0 < capacity (buf ctx)"
  shows "\<exists>b'. after_nop ops ctx = Some (ctx\<lparr>buf := b'\<rparr>) \<and>
           appended (buf ctx) [word_of_int (WASM_OPCODE_NOP ops)] b'"
  using out_opcode_total[OF assms, of "WASM_OPCODE_NOP ops"] by (auto simp: after_nop_def)

lemma before_return_total:
  assumes "0 < capacity (buf ctx)"
  shows "\<exists>b'. before_return ops ctx = Some (ctx\<lparr>buf := b'\<rparr>) \<and>
           appended (buf ctx) [word_of_int (WASM_OPCODE_RETURN ops)] b'"
  using out_opcode_total[OF assms, of "WASM_OPCODE_RETURN ops"] by (auto simp: before_return_def)

lemma after_break_total:
  assumes "0 < capacity (buf ctx)"
  shows "\<exists>b'. after_break ops depth ctx = Some (ctx\<lparr>buf := b'\<rparr>) \<and>
           appended (buf ctx) (word_of_int (WASM_OPCODE_BREAK ops) # [word_of_int depth]) b'"
proof -
  obtain b1 where b1: "out_opcode (buf ctx) (WASM_OPCODE_BREAK ops) = Some b1"
      "appended (buf ctx) [word_of_int (WASM_OPCODE_BREAK ops)] b1"
    using out_opcode_total[OF assms] by blast
  with assms have "0 < capacity b1" by (auto dest: appended_capacity)
  then obtain b2 where b2: "out_u8 b1 (word_of_int depth) = Some b2" "appended b1 ([word_of_int depth]) b2"
    using out_u8_total by blast
  from appended_trans[OF b1(2) b2(2)] b1(1) b2(1) show ?thesis
    by (auto simp: after_break_def)
qed

lemma before_call_import_total:
  assumes "0 < capacity (buf ctx)"
  shows "\<exists>b'. before_call_import ops import_index ctx = Some (ctx\<lparr>buf := b'\<rparr>) \<and>
           appended (buf ctx) (word_of_int (WASM_OPCODE_CALL ops) # leb128_bytes (word_of_int import_index)) b'"
proof -
  obtain b1 where b1: "out_opcode (buf ctx) (WASM_OPCODE_CALL ops) = Some b1"
      "appended (buf ctx) [word_of_int (WASM_OPCODE_CALL ops)] b1"
    using out_opcode_total[OF assms] by blast
  with assms have "0 < capacity b1" by (auto dest: appended_capacity)
  then obtain b2 where b2: "out_leb128 b1 (word_of_int import_index) = Some b2" "appended b1 (leb128_bytes (word_of_int import_index)) b2"
    using out_leb128_total by blast
  from appended_trans[OF b1(2) b2(2)] b1(1) b2(1) show ?thesis
    by (auto simp: before_call_import_def)
qed

lemma after_get_local_total:
  assumes "0 < capacity (buf ctx)"
  shows "\<exists>b'. after_get_local ops remapped_index ctx = Some (ctx\<lparr>buf := b'\<rparr>) \<and>
           appended (buf ctx) (word_of_int (WASM_OPCODE_GET_LOCAL ops) # leb128_bytes (word_of_int remapped_index)) b'"
proof -
  obtain b1 where b1: "out_opcode (buf ctx) (WASM_OPCODE_GET_LOCAL ops) = Some b1"
      "appended (buf ctx) [word_of_int (WASM_OPCODE_GET_LOCAL ops)] b1"
    using out_opcode_total[OF assms] by blast
  with assms have "0 < capacity b1" by (auto dest: appended_capacity)
  then obtain b2 where b2: "out_leb128 b1 (word_of_int remapped_index) = Some b2" "appended b1 (leb128_bytes (word_of_int remapped_index)) b2"
    using out_leb128_total by blast
  from appended_trans[OF b1(2) b2(2)] b1(1) b2(1) show ?thesis
    by (auto simp: after_get_local_def)
qed

lemma after_load_global_total:
  assumes "0 < capacity (buf ctx)"
  shows "\<exists>b'. after_load_global ops index ctx = Some (ctx\<lparr>buf := b'\<rparr>) \<and>
           appended (buf ctx) (word_of_int (WASM_OPCODE_GET_GLOBAL ops) # leb128_bytes (word_of_int index)) b'"
proof -
  obtain b1 where b1: "out_opcode (buf ctx) (WASM_OPCODE_GET_GLOBAL ops) = Some b1"
      "appended (buf ctx) [word_of_int (WASM_OPCODE_GET_GLOBAL ops)] b1"
    using out_opcode_total[OF assms] by blast
  with assms have "0 < capacity b1" by (auto dest: appended_capacity)
  then obtain b2 where b2: "out_leb128 b1 (word_of_int index) = Some b2" "appended b1 (leb128_bytes (word_of_int index)) b2"
    using out_leb128_total by blast
  from appended_trans[OF b1(2) b2(2)] b1(1) b2(1) show ?thesis
    by (auto simp: after_load_global_def)
qed

lemma before_set_local_total:
  assumes "0 < capacity (buf ctx)"
  shows "\<exists>b'. before_set_local ops index ctx = Some (ctx\<lparr>buf := b'\<rparr>) \<and>
           appended (buf ctx) (word_of_int (WASM_OPCODE_SET_LOCAL ops) # leb128_bytes (word_of_int index)) b'"
proof -
  obtain b1 where b1: "out_opcode (buf ctx) (WASM_OPCODE_SET_LOCAL ops) = Some b1"
      "appended (buf ctx) [word_of_int (WASM_OPCODE_SET_LOCAL ops)] b1"
    using out_opcode_total[OF assms] by blast
  with assms have "0 < capacity b1" by (auto dest: appended_capacity)
  then obtain b2 where b2: "out_leb128 b1 (word_of_int index) = Some b2" "appended b1 (leb128_bytes (word_of_int index)) b2"
    using out_leb128_total by blast
  from appended_trans[OF b1(2) b2(2)] b1(1) b2(1) show ?thesis
    by (auto simp: before_set_local_def)
qed

lemma before_store_global_total:
  assumes "0 < capacity (buf ctx)"
  shows "\<exists>b'. before_store_global ops index ctx = Some (ctx\<lparr>buf := b'\<rparr>) \<and>
           appended (buf ctx) (word_of_int (WASM_OPCODE_SET_GLOBAL ops) # leb128_bytes (word_of_int index)) b'"
proof -
  obtain b1 where b1: "out_opcode (buf ctx) (WASM_OPCODE_SET_GLOBAL ops) = Some b1"
      "appended (buf ctx) [word_of_int (WASM_OPCODE_SET_GLOBAL ops)] b1"
    using out_opcode_total[OF assms] by blast
  with assms have "0 < capacity b1" by (auto dest: appended_capacity)
  then obtain b2 where b2: "out_leb128 b1 (word_of_int index) = Some b2" "appended b1 (leb128_bytes (word_of_int index)) b2"
    using out_leb128_total by blast
  from appended_trans[OF b1(2) b2(2)] b1(1) b2(1) show ?thesis
    by (auto simp: before_store_global_def)
qed

lemma before_load_total:
  assumes "0 < capacity (buf ctx)"
  shows "\<exists>b'. before_load opcode access ctx = Some (ctx\<lparr>buf := b'\<rparr>) \<and>
           appended (buf ctx) (word_of_int (opcode) # [access]) b'"
proof -
  obtain b1 where b1: "out_opcode (buf ctx) (opcode) = Some b1"
      "appended (buf ctx) [word_of_int (opcode)] b1"
    using out_opcode_total[OF assms] by blast
  with assms have "0 < capacity b1" by (auto dest: appended_capacity)
  then obtain b2 where b2: "out_u8 b1 (access) = Some b2" "appended b1 ([access]) b2"
    using out_u8_total by blast
  from appended_trans[OF b1(2) b2(2)] b1(1) b2(1) show ?thesis
    by (auto simp: before_load_def)
qed

lemma before_store_total:
  assumes "0 < capacity (buf ctx)"
  shows "\<exists>b'. before_store opcode access ctx = Some (ctx\<lparr>buf := b'\<rparr>) \<and>
           appended (buf ctx) (word_of_int (opcode) # [access]) b'"
proof -
  obtain b1 where b1: "out_opcode (buf ctx) (opcode) = Some b1"
      "appended (buf ctx) [word_of_int (opcode)] b1"
    using out_opcode_total[OF assms] by blast
  with assms have "0 < capacity b1" by (auto dest: appended_capacity)
  then obtain b2 where b2: "out_u8 b1 (access) = Some b2" "appended b1 ([access]) b2"
    using out_u8_total by blast
  from appended_trans[OF b1(2) b2(2)] b1(1) b2(1) show ?thesis
    by (auto simp: before_store_def)
qed

lemma before_call_total:
  assumes "0 < capacity (buf ctx)" and "module ctx = Some m"
  shows "\<exists>b'. before_call ops function_index ctx = Some (ctx\<lparr>buf := b'\<rparr>) \<and>
           appended (buf ctx)
             (word_of_int (WASM_OPCODE_CALL ops) #
              leb128_bytes (word_of_int (int (length (imports_m m)) + function_index))) b'"
proof -
  let ?v = "word_of_int (int (length (imports_m m)) + function_index) :: u32"
  obtain b1 where b1: "out_opcode (buf ctx) (WASM_OPCODE_CALL ops) = Some b1"
      "appended (buf ctx) [word_of_int (WASM_OPCODE_CALL ops)] b1"
    using out_opcode_total[OF assms(1)] by blast
  with assms have "0 < capacity b1" by (auto dest: appended_capacity)
  then obtain b2 where b2: "out_leb128 b1 ?v = Some b2" "appended b1 (leb128_bytes ?v) b2"
    using out_leb128_total by blast
  from appended_trans[OF b1(2) b2(2)] b1(1) b2(1) assms(2) show ?thesis
    by (auto simp: before_call_def)
qed

lemma before_call_None: "module ctx = None \<Longrightarrow> before_call ops function_index ctx = None"
  by (simp add: before_call_def split: bind_splits)

lemma before_block_total:
  assumes "0 < capacity (buf ctx)"
  shows "\<exists>b'. before_block ops ctx = Some (Suc (size_buf (buf ctx)), ctx\<lparr>buf := b'\<rparr>) \<and>
           appended (buf ctx) [word_of_int (WASM_OPCODE_BLOCK ops), 0] b'"
proof -
  obtain b1 where b1: "out_opcode (buf ctx) (WASM_OPCODE_BLOCK ops) = Some b1"
      "appended (buf ctx) [word_of_int (WASM_OPCODE_BLOCK ops)] b1"
    using out_opcode_total[OF assms] by blast
  with assms have "0 < capacity b1" by (auto dest: appended_capacity)
  then obtain b2 where b2: "out_u8 b1 0 = Some b2" "appended b1 [0] b2"
    using out_u8_total by blast
  from b1(2) have "size_buf b1 = Suc (size_buf (buf ctx))" by (simp add: appended_def)
  with appended_trans[OF b1(2) b2(2)] b1(1) b2(1) show ?thesis
    by (auto simp: before_block_def)
qed

lemma before_label_total:
  assumes "0 < capacity (buf ctx)"
  shows "\<exists>b'. before_label ops ctx = Some (Suc (size_buf (buf ctx)), ctx\<lparr>buf := b'\<rparr>) \<and>
           appended (buf ctx) [word_of_int (WASM_OPCODE_BLOCK ops), 0] b'"
proof -
  obtain b1 where b1: "out_opcode (buf ctx) (WASM_OPCODE_BLOCK ops) = Some b1"
      "appended (buf ctx) [word_of_int (WASM_OPCODE_BLOCK ops)] b1"
    using out_opcode_total[OF assms] by blast
  with assms have "0 < capacity b1" by (auto dest: appended_capacity)
  then obtain b2 where b2: "out_u8 b1 0 = Some b2" "appended b1 [0] b2"
    using out_u8_total by blast
  from b1(2) have "size_buf b1 = Suc (size_buf (buf ctx))" by (simp add: appended_def)
  with appended_trans[OF b1(2) b2(2)] b1(1) b2(1) show ?thesis
    by (auto simp: before_label_def)
qed

lemma before_loop_total:
  assumes "0 < capacity (buf ctx)"
  shows "\<exists>b'. before_loop ops ctx = Some (Suc (size_buf (buf ctx)), ctx\<lparr>buf := b'\<rparr>) \<and>
           appended (buf ctx) [word_of_int (WASM_OPCODE_LOOP ops), 0] b'"
proof -
  obtain b1 where b1: "out_opcode (buf ctx) (WASM_OPCODE_LOOP ops) = Some b1"
      "appended (buf ctx) [word_of_int (WASM_OPCODE_LOOP ops)] b1"
    using out_opcode_total[OF assms] by blast
  with assms have "0 < capacity b1" by (auto dest: appended_capacity)
  then obtain b2 where b2: "out_u8 b1 0 = Some b2" "appended b1 [0] b2"
    using out_u8_total by blast
  from b1(2) have "size_buf b1 = Suc (size_buf (buf ctx))" by (simp add: appended_def)
  with appended_trans[OF b1(2) b2(2)] b1(1) b2(1) show ?thesis
    by (auto simp: before_loop_def)
qed

lemma after_block_total:
  assumes "0 < capacity (buf ctx)" and "unat (of_nat cookie :: u32) \<le> size_buf (buf ctx)"
  shows "\<exists>b'. after_block num_exprs cookie ctx = Some (ctx\<lparr>buf := b'\<rparr>) \<and>
           patched (buf ctx) (unat (of_nat cookie :: u32)) [word_of_int num_exprs] b'"
  using out_u8_at_total[OF assms(2,1), of "word_of_int num_exprs"] by (auto simp: after_block_def)

lemma after_block_None:
  "\<not> unat (of_nat cookie :: u32) \<le> size_buf (buf ctx) \<Longrightarrow> after_block num_exprs cookie ctx = None"
  by (simp add: after_block_def out_u8_at_None)

lemma after_label_total:
  assumes "0 < capacity (buf ctx)" and "unat (of_nat cookie :: u32) \<le> size_buf (buf ctx)"
  shows "\<exists>b'. after_label num_exprs cookie ctx = Some (ctx\<lparr>buf := b'\<rparr>) \<and>
           patched (buf ctx) (unat (of_nat cookie :: u32)) [word_of_int num_exprs] b'"
  using out_u8_at_total[OF assms(2,1), of "word_of_int num_exprs"] by (auto simp: after_label_def)

lemma after_label_None:
  "\<not> unat (of_nat cookie :: u32) \<le> size_buf (buf ctx) \<Longrightarrow> after_label num_exprs cookie ctx = None"
  by (simp add: after_label_def out_u8_at_None)

lemma after_loop_total:
  assumes "0 < capacity (buf ctx)" and "unat (of_nat cookie :: u32) \<le> size_buf (buf ctx)"
  shows "\<exists>b'. after_loop num_exprs cookie ctx = Some (ctx\<lparr>buf := b'\<rparr>) \<and>
           patched (buf ctx) (unat (of_nat cookie :: u32)) [word_of_int num_exprs] b'"
  using out_u8_at_total[OF assms(2,1), of "word_of_int num_exprs"] by (auto simp: after_loop_def)

lemma after_loop_None:
  "\<not> unat (of_nat cookie :: u32) \<le> size_buf (buf ctx) \<Longrightarrow> after_loop num_exprs cookie ctx = None"
  by (simp add: after_loop_def out_u8_at_None)

lemma before_if_total:
  assumes "0 < capacity (buf ctx)"
  shows "\<exists>b'. before_if ops ctx = Some (unat (of_nat (size_buf (buf ctx)) :: u32), ctx\<lparr>buf := b'\<rparr>) \<and>
           appended (buf ctx) [word_of_int (WASM_OPCODE_IF ops)] b'"
  using out_opcode_total[OF assms, of "WASM_OPCODE_IF ops"] by (auto simp: before_if_def)

lemma after_if_total:
  assumes "0 < capacity (buf ctx)" and "unat (of_nat cookie :: u32) \<le> size_buf (buf ctx)"
    and "with_else \<noteq> 0"
  shows "\<exists>b'. after_if ops with_else cookie ctx = Some (ctx\<lparr>buf := b'\<rparr>) \<and>
           patched (buf ctx) (unat (of_nat cookie :: u32)) [word_of_int (WASM_OPCODE_IF_THEN ops)] b'"
  using out_u8_at_total[OF assms(2,1), of "word_of_int (WASM_OPCODE_IF_THEN ops)"] assms(3)
  by (auto simp: after_if_def)

lemma after_if_None:
  "\<not> unat (of_nat cookie :: u32) \<le> size_buf (buf ctx) \<Longrightarrow> with_else \<noteq> 0 \<Longrightarrow>
   after_if ops with_else cookie ctx = None"
  by (simp add: after_if_def out_u8_at_None)

lemma after_if_no_else: "after_if ops 0 cookie ctx = Some ctx"
  by (simp add: after_if_def)

lemma after_const_total:
  assumes "0 < capacity (buf ctx)" and "t \<noteq> WASM_TYPE_VOID"
  shows "\<exists>b'. after_const ops opcode t v ctx = Some (ctx\<lparr>buf := b'\<rparr>) \<and>
           appended (buf ctx) (const_bytes ops opcode t v) b'"
proof -
  have step: "\<exists>b'. (out_opcode (buf ctx) x \<bind> (\<lambda>b. f b \<bind> (\<lambda>b. Some (ctx\<lparr>buf := b\<rparr>)))) =
                 Some (ctx\<lparr>buf := b'\<rparr>) \<and> appended (buf ctx) (word_of_int x # bs) b'"
    if f: "\<And>b1. 0 < capacity b1 \<Longrightarrow> \<exists>b2. f b1 = Some b2 \<and> appended b1 bs b2"
    for x f bs
  proof -
    obtain b1 where b1: "out_opcode (buf ctx) x = Some b1" "appended (buf ctx) [word_of_int x] b1"
      using out_opcode_total[OF assms(1)] by blast
    with assms have "0 < capacity b1" by (auto dest: appended_capacity)
    then obtain b2 where b2: "f b1 = Some b2" "appended b1 bs b2" using f by blast
    from appended_trans[OF b1(2) b2(2)] b1(1) b2(1) show ?thesis by auto
  qed
  show ?thesis
  proof (cases t)
    case WASM_TYPE_VOID
    with assms(2) show ?thesis by simp
  next
    case WASM_TYPE_I32
    show ?thesis
    proof (cases "- 128 \<le> sint (i32 v) \<and> sint (i32 v) < 127")
      case True
      have "const_bytes ops opcode WASM_TYPE_I32 v =
              [word_of_int (WASM_OPCODE_I8_CONST ops), ucast (i32 v)]"
        by (simp only: const_bytes.simps if_P[OF True])
      moreover have "after_const ops opcode WASM_TYPE_I32 v ctx =
          out_opcode (buf ctx) (WASM_OPCODE_I8_CONST ops) \<bind>
            (\<lambda>b. out_u8 b (ucast (i32 v)) \<bind> (\<lambda>b. Some (ctx\<lparr>buf := b\<rparr>)))"
        by (simp only: after_const_def WasmType.case if_P[OF True])
      ultimately show ?thesis
        using step[of "\<lambda>b. out_u8 b (ucast (i32 v))" "[ucast (i32 v)]" "WASM_OPCODE_I8_CONST ops"]
        unfolding WASM_TYPE_I32 by (simp add: out_u8_total)
    next
      case False
      have "const_bytes ops opcode WASM_TYPE_I32 v = word_of_int opcode # le_bytes 4 (unat (i32 v))"
        by (simp only: const_bytes.simps if_not_P[OF False])
      moreover have "after_const ops opcode WASM_TYPE_I32 v ctx =
          out_opcode (buf ctx) opcode \<bind>
            (\<lambda>b. out_u32 b (i32 v) \<bind> (\<lambda>b. Some (ctx\<lparr>buf := b\<rparr>)))"
        by (simp only: after_const_def WasmType.case if_not_P[OF False])
      ultimately show ?thesis
        using step[of "\<lambda>b. out_u32 b (i32 v)" "le_bytes 4 (unat (i32 v))" opcode]
        unfolding WASM_TYPE_I32 by (simp add: out_u32_total)
    qed
  next
    case WASM_TYPE_I64
    with step[of "\<lambda>b. out_u64 b (i64 v)" "le_bytes 8 (unat (i64 v))" opcode]
    show ?thesis by (simp add: after_const_def out_u64_total)
  next
    case WASM_TYPE_F32
    with step[of "\<lambda>b. out_f32 b (f32 v)" "le_bytes 4 (unat (f32 v))" opcode]
    show ?thesis by (simp add: after_const_def out_f32_total)
  next
    case WASM_TYPE_F64
    with step[of "\<lambda>b. out_f64 b (f64 v)" "le_bytes 8 (unat (f64 v))" opcode]
    show ?thesis by (simp add: after_const_def out_f64_total)
  qed
qed

lemma after_const_None: "after_const ops opcode WASM_TYPE_VOID v ctx = None"
  by (simp add: after_const_def)


lemma callback_extends:
  assumes "callback ops e ctx = Some ctx'" and "0 < capacity (buf ctx)"
  shows "\<exists>b'. ctx' = ctx\<lparr>buf := b'\<rparr> \<and> extends (buf ctx) b'"
proof (cases e)
  case Before_block
  with assms before_block_total[OF assms(2), where ops=ops] show ?thesis
    by (fastforce dest: appended_extends)
next
  case (Before_binary x)
  with assms before_binary_total[OF assms(2), where opcode=x] show ?thesis
    by (fastforce dest: appended_extends)
next
  case (After_break x)
  with assms after_break_total[OF assms(2), where ops=ops and depth=x] show ?thesis
    by (fastforce dest: appended_extends)
next
  case (Before_call_import x)
  with assms before_call_import_total[OF assms(2), where ops=ops and import_index=x] show ?thesis
    by (fastforce dest: appended_extends)
next
  case (Before_compare x)
  with assms before_compare_total[OF assms(2), where opcode=x] show ?thesis
    by (fastforce dest: appended_extends)
next
  case (Before_convert x)
  with assms before_convert_total[OF assms(2), where opcode=x] show ?thesis
    by (fastforce dest: appended_extends)
next
  case (After_get_local x)
  with assms after_get_local_total[OF assms(2), where ops=ops and remapped_index=x] show ?thesis
    by (fastforce dest: appended_extends)
next
  case Before_if
  with assms before_if_total[OF assms(2), where ops=ops] show ?thesis
    by (fastforce dest: appended_extends)
next
  case Before_label
  with assms before_label_total[OF assms(2), where ops=ops] show ?thesis
    by (fastforce dest: appended_extends)
next
  case (Before_load x y)
  with assms before_load_total[OF assms(2), where opcode=x and access=y] show ?thesis
    by (fastforce dest: appended_extends)
next
  case (After_load_global x)
  with assms after_load_global_total[OF assms(2), where ops=ops and index=x] show ?thesis
    by (fastforce dest: appended_extends)
next
  case Before_loop
  with assms before_loop_total[OF assms(2), where ops=ops] show ?thesis
    by (fastforce dest: appended_extends)
next
  case After_nop
  with assms after_nop_total[OF assms(2), where ops=ops] show ?thesis
    by (fastforce dest: appended_extends)
next
  case Before_return
  with assms before_return_total[OF assms(2), where ops=ops] show ?thesis
    by (fastforce dest: appended_extends)
next
  case (Before_set_local x)
  with assms before_set_local_total[OF assms(2), where ops=ops and index=x] show ?thesis
    by (fastforce dest: appended_extends)
next
  case (Before_store x y)
  with assms before_store_total[OF assms(2), where opcode=x and access=y] show ?thesis
    by (fastforce dest: appended_extends)
next
  case (Before_store_global x)
  with assms before_store_global_total[OF assms(2), where ops=ops and index=x] show ?thesis
    by (fastforce dest: appended_extends)
next
  case (Before_unary x)
  with assms before_unary_total[OF assms(2), where opcode=x] show ?thesis
    by (fastforce dest: appended_extends)
next
  case (After_block n c)
  show ?thesis
  proof (cases "unat (of_nat c :: u32) \<le> size_buf (buf ctx)")
    case True
    with assms after_block_total[OF assms(2) True, where num_exprs=n] \<open>e = After_block n c\<close> show ?thesis
      by (fastforce dest: patched_extends)
  next
    case False
    with assms after_block_None[OF False, where num_exprs=n] \<open>e = After_block n c\<close> show ?thesis by simp
  qed
next
  case (After_label n c)
  show ?thesis
  proof (cases "unat (of_nat c :: u32) \<le> size_buf (buf ctx)")
    case True
    with assms after_label_total[OF assms(2) True, where num_exprs=n] \<open>e = After_label n c\<close> show ?thesis
      by (fastforce dest: patched_extends)
  next
    case False
    with assms after_label_None[OF False, where num_exprs=n] \<open>e = After_label n c\<close> show ?thesis by simp
  qed
next
  case (After_loop n c)
  show ?thesis
  proof (cases "unat (of_nat c :: u32) \<le> size_buf (buf ctx)")
    case True
    with assms after_loop_total[OF assms(2) True, where num_exprs=n] \<open>e = After_loop n c\<close> show ?thesis
      by (fastforce dest: patched_extends)
  next
    case False
    with assms after_loop_None[OF False, where num_exprs=n] \<open>e = After_loop n c\<close> show ?thesis by simp
  qed
next
  case (After_if w c)
  show ?thesis
  proof (cases "w = 0")
    case True
    with assms After_if show ?thesis by (auto simp: after_if_no_else intro!: exI[of _ "buf ctx"])
  next
    case nz: False
    show ?thesis
    proof (cases "unat (of_nat c :: u32) \<le> size_buf (buf ctx)")
      case True
      with assms after_if_total[OF assms(2) True nz, where ops=ops] After_if show ?thesis
        by (fastforce dest: patched_extends)
    next
      case False
      with assms after_if_None[OF False nz, where ops=ops] After_if show ?thesis by simp
    qed
  qed
next
  case (Before_call x)
  show ?thesis
  proof (cases "module ctx")
    case None
    with assms before_call_None[OF None, where ops=ops and function_index=x] Before_call show ?thesis by simp
  next
    case (Some m)
    with assms before_call_total[OF assms(2) Some, where ops=ops and function_index=x] Before_call show ?thesis
      by (fastforce dest: appended_extends)
  qed
next
  case (After_const x t v)
  show ?thesis
  proof (cases "t = WASM_TYPE_VOID")
    case True
    with assms After_const show ?thesis by (simp add: after_const_None)
  next
    case False
    with assms after_const_total[OF assms(2) False, where ops=ops and opcode=x and v=v] After_const show ?thesis
      by (fastforce dest: appended_extends)
  qed
qed

lemma callbacks_extends:
  assumes "callbacks ops es ctx = Some ctx'" and "0 < capacity (buf ctx)"
  shows "\<exists>b'. ctx' = ctx\<lparr>buf := b'\<rparr> \<and> extends (buf ctx) b'"
  using assms
proof (induction es arbitrary: ctx)
  case Nil
  then show ?case by (auto intro!: exI[of _ "buf ctx"])
next
  case (Cons e es)
  from Cons.prems(1) obtain ctx1 where c1: "callback ops e ctx = Some ctx1"
      "callbacks ops es ctx1 = Some ctx'"
    by (auto split: bind_splits)
  from callback_extends[OF c1(1) Cons.prems(2)] obtain b1 where
    b1: "ctx1 = ctx\<lparr>buf := b1\<rparr>" "extends (buf ctx) b1" by blast
  then have "0 < capacity (buf ctx1)" using Cons.prems(2) by (auto dest: extends_capacity)
  from Cons.IH[OF c1(2) this] obtain b2 where
    b2: "ctx' = ctx1\<lparr>buf := b2\<rparr>" "extends (buf ctx1) b2" by blast
  with b1 show ?case by (auto intro: extends_trans)
qed

subsection \<open>Facts about patches, sizes and the sample context\<close>

lemma patched_contents1: "patched b offset [v] b' \<Longrightarrow> contents b' = (contents b)[offset := v]"
  by (rule nth_equalityI) (auto simp: patched_def contents_def memcpy_def nth_list_update)

lemma patched_cell: "patched b offset [v] b' \<Longrightarrow> start b' offset = v"
  by (simp add: patched_def memcpy_def)

lemma patched_other: "patched b offset [v] b' \<Longrightarrow> i \<noteq> offset \<Longrightarrow> start b' i = start b i"
  by (simp add: patched_def memcpy_outside)

lemma unat_of_nat_u32: "n < 2 ^ 32 \<Longrightarrow> unat (of_nat n :: u32) = n"
  by (simp add: unat_of_nat)

lemma unat_word_of_int_u8: "unat (word_of_int n :: u8) = nat (n mod 256)"
  by (simp add: unat_eq_nat_uint uint_word_of_int)

lemma unat_word_of_int_u32: "0 \<le> n \<Longrightarrow> n < 2 ^ 32 \<Longrightarrow> unat (word_of_int n :: u32) = nat n"
  by (simp add: unat_eq_nat_uint uint_word_of_int)

lemma appended_to_contents:
  assumes "\<exists>b'. P b' \<and> appended b bs b'"
  shows "\<exists>b'. P b' \<and> contents b' = contents b @ bs"
proof -
  from assms obtain b' where "P b'" "appended b bs b'" by blast
  then show ?thesis using appended_contents by blast
qed

lemma sample_ctx_capacity: "0 < capacity (buf sample_ctx)"
  by (simp add: sample_ctx_def INITIAL_OUTPUT_BUFFER_CAPACITY_def)

lemma sample_ctx_contents: "contents (buf sample_ctx) = []"
  by (simp add: sample_ctx_def contents_def)

lemma buf_update_eqD: "ctx\<lparr>buf := a\<rparr> = ctx\<lparr>buf := b\<rparr> \<Longrightarrow> a = b"
  by (drule arg_cong[where f = buf]) simp

lemma appended_size: "appended b bs b' \<Longrightarrow> size_buf b' = size_buf b + length bs"
  by (simp add: appended_def)

lemma length_contents [simp]: "length (contents b) = size_buf b"
  by (simp add: contents_def)

lemma extends_size: "extends b b' \<Longrightarrow> size_buf b \<le> size_buf b'"
  by (simp add: extends_def)

lemma patched_size: "patched b offset bs b' \<Longrightarrow> size_buf b' = size_buf b"
  by (simp add: patched_def)

lemma callbacks_after_append:
  assumes "appended (buf ctx) bs b1" and "0 < capacity (buf ctx)"
    and "callbacks ops es (ctx\<lparr>buf := b1\<rparr>) = Some ctx2"
  shows "0 < capacity (buf ctx2) \<and> size_buf (buf ctx) + length bs \<le> size_buf (buf ctx2)"
proof -
  from assms(1,2) have c1: "0 < capacity (buf (ctx\<lparr>buf := b1\<rparr>))"
    by (auto dest: appended_capacity)
  from callbacks_extends[OF assms(3) c1] obtain b2 where
    "ctx2 = ctx\<lparr>buf := b1\<rparr>\<lparr>buf := b2\<rparr>" "extends b1 b2" by auto
  with assms(1) c1 show ?thesis
    by (auto dest: extends_capacity extends_size simp: appended_size)
qed

lemma close_count_byte:
  assumes p: "patched b cookie [word_of_int n] b'" and lt: "cookie < size_buf b"
  shows "contents b' = (contents b)[cookie := word_of_int n] \<and>
         cookie < length (contents b') \<and>
         unat (contents b' ! cookie) = nat (n mod 256)"
proof -
  from p have c: "contents b' = (contents b)[cookie := word_of_int n]" by (rule patched_contents1)
  moreover from p lt have l: "cookie < length (contents b')" by (simp add: patched_size)
  moreover from lt have "(contents b)[cookie := word_of_int n] ! cookie = word_of_int n" by simp
  ultimately show ?thesis by (simp add: unat_word_of_int_u8)
qed

lemma block_region:
  assumes "0 < capacity (buf ctx)" and "Suc (size_buf (buf ctx)) < 2 ^ 32"
  shows "\<exists>b1. before_block ops ctx = Some (Suc (size_buf (buf ctx)), ctx\<lparr>buf := b1\<rparr>) \<and>
           contents b1 = contents (buf ctx) @ [word_of_int (WASM_OPCODE_BLOCK ops), 0] \<and>
           (\<forall>es ctx2 n. callbacks ops es (ctx\<lparr>buf := b1\<rparr>) = Some ctx2 \<longrightarrow>
              (\<exists>b3. after_block n (Suc (size_buf (buf ctx))) ctx2 = Some (ctx2\<lparr>buf := b3\<rparr>) \<and>
                    contents b3 = (contents (buf ctx2))[Suc (size_buf (buf ctx)) := word_of_int n] \<and>
                    Suc (size_buf (buf ctx)) < length (contents b3) \<and>
                    unat (contents b3 ! Suc (size_buf (buf ctx))) = nat (n mod 256)))"
proof -
  let ?cookie = "Suc (size_buf (buf ctx))"
  obtain b1 where o: "before_block ops ctx = Some (?cookie, ctx\<lparr>buf := b1\<rparr>)"
      and a: "appended (buf ctx) [word_of_int (WASM_OPCODE_BLOCK ops), 0] b1"
    using before_block_total[OF assms(1)] by blast
  have u: "unat (of_nat ?cookie :: u32) = ?cookie" using assms(2) by (rule unat_of_nat_u32)
  have "\<exists>b3. after_block n ?cookie ctx2 = Some (ctx2\<lparr>buf := b3\<rparr>) \<and>
             contents b3 = (contents (buf ctx2))[?cookie := word_of_int n] \<and>
             ?cookie < length (contents b3) \<and>
             unat (contents b3 ! ?cookie) = nat (n mod 256)"
    if r: "callbacks ops es (ctx\<lparr>buf := b1\<rparr>) = Some ctx2" for es ctx2 n
  proof -
    from callbacks_after_append[OF a assms(1) r]
    have c2: "0 < capacity (buf ctx2)" and s2: "?cookie < size_buf (buf ctx2)" by simp_all
    from s2 have le: "unat (of_nat ?cookie :: u32) \<le> size_buf (buf ctx2)" unfolding u by simp
    from after_block_total[OF c2 le, of n] obtain b3 where
      b3: "after_block n ?cookie ctx2 = Some (ctx2\<lparr>buf := b3\<rparr>)"
        "patched (buf ctx2) ?cookie [word_of_int n] b3"
      unfolding u by blast
    from close_count_byte[OF b3(2) s2] b3(1) show ?thesis by blast
  qed
  with o appended_contents[OF a] show ?thesis by blast
qed

lemma loop_region:
  assumes "0 < capacity (buf ctx)" and "Suc (size_buf (buf ctx)) < 2 ^ 32"
  shows "\<exists>b1. before_loop ops ctx = Some (Suc (size_buf (buf ctx)), ctx\<lparr>buf := b1\<rparr>) \<and>
           contents b1 = contents (buf ctx) @ [word_of_int (WASM_OPCODE_LOOP ops), 0] \<and>
           (\<forall>es ctx2 n. callbacks ops es (ctx\<lparr>buf := b1\<rparr>) = Some ctx2 \<longrightarrow>
              (\<exists>b3. after_loop n (Suc (size_buf (buf ctx))) ctx2 = Some (ctx2\<lparr>buf := b3\<rparr>) \<and>
                    contents b3 = (contents (buf ctx2))[Suc (size_buf (buf ctx)) := word_of_int n] \<and>
                    Suc (size_buf (buf ctx)) < length (contents b3) \<and>
                    unat (contents b3 ! Suc (size_buf (buf ctx))) = nat (n mod 256)))"
proof -
  let ?cookie = "Suc (size_buf (buf ctx))"
  obtain b1 where o: "before_loop ops ctx = Some (?cookie, ctx\<lparr>buf := b1\<rparr>)"
      and a: "appended (buf ctx) [word_of_int (WASM_OPCODE_LOOP ops), 0] b1"
    using before_loop_total[OF assms(1)] by blast
  have u: "unat (of_nat ?cookie :: u32) = ?cookie" using assms(2) by (rule unat_of_nat_u32)
  have "\<exists>b3. after_loop n ?cookie ctx2 = Some (ctx2\<lparr>buf := b3\<rparr>) \<and>
             contents b3 = (contents (buf ctx2))[?cookie := word_of_int n] \<and>
             ?cookie < length (contents b3) \<and>
             unat (contents b3 ! ?cookie) = nat (n mod 256)"
    if r: "callbacks ops es (ctx\<lparr>buf := b1\<rparr>) = Some ctx2" for es ctx2 n
  proof -
    from callbacks_after_append[OF a assms(1) r]
    have c2: "0 < capacity (buf ctx2)" and s2: "?cookie < size_buf (buf ctx2)" by simp_all
    from s2 have le: "unat (of_nat ?cookie :: u32) \<le> size_buf (buf ctx2)" unfolding u by simp
    from after_loop_total[OF c2 le, of n] obtain b3 where
      b3: "after_loop n ?cookie ctx2 = Some (ctx2\<lparr>buf := b3\<rparr>)"
        "patched (buf ctx2) ?cookie [word_of_int n] b3"
      unfolding u by blast
    from close_count_byte[OF b3(2) s2] b3(1) show ?thesis by blast
  qed
  with o appended_contents[OF a] show ?thesis by blast
qed

lemma label_region:
  assumes "0 < capacity (buf ctx)" and "Suc (size_buf (buf ctx)) < 2 ^ 32"
  shows "\<exists>b1. before_label ops ctx = Some (Suc (size_buf (buf ctx)), ctx\<lparr>buf := b1\<rparr>) \<and>
           contents b1 = contents (buf ctx) @ [word_of_int (WASM_OPCODE_BLOCK ops), 0] \<and>
           (\<forall>es ctx2 n. callbacks ops es (ctx\<lparr>buf := b1\<rparr>) = Some ctx2 \<longrightarrow>
              (\<exists>b3. after_label n (Suc (size_buf (buf ctx))) ctx2 = Some (ctx2\<lparr>buf := b3\<rparr>) \<and>
                    contents b3 = (contents (buf ctx2))[Suc (size_buf (buf ctx)) := word_of_int n] \<and>
                    Suc (size_buf (buf ctx)) < length (contents b3) \<and>
                    unat (contents b3 ! Suc (size_buf (buf ctx))) = nat (n mod 256)))"
proof -
  let ?cookie = "Suc (size_buf (buf ctx))"
  obtain b1 where o: "before_label ops ctx = Some (?cookie, ctx\<lparr>buf := b1\<rparr>)"
      and a: "appended (buf ctx) [word_of_int (WASM_OPCODE_BLOCK ops), 0] b1"
    using before_label_total[OF assms(1)] by blast
  have u: "unat (of_nat ?cookie :: u32) = ?cookie" using assms(2) by (rule unat_of_nat_u32)
  have "\<exists>b3. after_label n ?cookie ctx2 = Some (ctx2\<lparr>buf := b3\<rparr>) \<and>
             contents b3 = (contents (buf ctx2))[?cookie := word_of_int n] \<and>
             ?cookie < length (contents b3) \<and>
             unat (contents b3 ! ?cookie) = nat (n mod 256)"
    if r: "callbacks ops es (ctx\<lparr>buf := b1\<rparr>) = Some ctx2" for es ctx2 n
  proof -
    from callbacks_after_append[OF a assms(1) r]
    have c2: "0 < capacity (buf ctx2)" and s2: "?cookie < size_buf (buf ctx2)" by simp_all
    from s2 have le: "unat (of_nat ?cookie :: u32) \<le> size_buf (buf ctx2)" unfolding u by simp
    from after_label_total[OF c2 le, of n] obtain b3 where
      b3: "after_label n ?cookie ctx2 = Some (ctx2\<lparr>buf := b3\<rparr>)"
        "patched (buf ctx2) ?cookie [word_of_int n] b3"
      unfolding u by blast
    from close_count_byte[OF b3(2) s2] b3(1) show ?thesis by blast
  qed
  with o appended_contents[OF a] show ?thesis by blast
qed

lemma callbacks_nop:
  assumes "0 < capacity (buf c)"
  shows "\<exists>b'. callbacks ops [After_nop] c = Some (c\<lparr>buf := b'\<rparr>) \<and>
           contents b' = contents (buf c) @ [word_of_int (WASM_OPCODE_NOP ops)]"
proof -
  from after_nop_total[OF assms, of ops] obtain b' where
    "after_nop ops c = Some (c\<lparr>buf := b'\<rparr>)" "appended (buf c) [word_of_int (WASM_OPCODE_NOP ops)] b'"
    by blast
  then show ?thesis using appended_contents by (intro exI[of _ b']) simp
qed

lemma sample_ctx_size: "size_buf (buf sample_ctx) = 0"
  by (simp add: sample_ctx_def)

lemma close_truncates:
  assumes c: "0 < capacity (buf ctx)" and lt: "cookie < size_buf (buf ctx)" and w: "cookie < 2 ^ 32"
    and total: "\<And>num_exprs. unat (of_nat cookie :: u32) \<le> size_buf (buf ctx) \<Longrightarrow>
      \<exists>b'. close num_exprs cookie ctx = Some (ctx\<lparr>buf := b'\<rparr>) \<and>
           patched (buf ctx) (unat (of_nat cookie :: u32)) [word_of_int num_exprs] b'"
  shows "\<exists>b'. close n cookie ctx = Some (ctx\<lparr>buf := b'\<rparr>) \<and>
           contents b' = (contents (buf ctx))[cookie := word_of_int n] \<and>
           unat (contents b' ! cookie) = nat (n mod 256)"
proof -
  have u: "unat (of_nat cookie :: u32) = cookie" using w by (rule unat_of_nat_u32)
  with lt have "unat (of_nat cookie :: u32) \<le> size_buf (buf ctx)" by simp
  from total[OF this, of n] obtain b' where
    b': "close n cookie ctx = Some (ctx\<lparr>buf := b'\<rparr>)" "patched (buf ctx) cookie [word_of_int n] b'"
    unfolding u by blast
  from close_count_byte[OF b'(2) lt] b'(1) show ?thesis by blast
qed

lemma unat_u32_add_of_nat:
  "unat (h :: u32) + k < 2 ^ 32 \<Longrightarrow> unat (h + of_nat k) = unat h + k"
  by (simp add: unat_word_ariths unat_of_nat)

lemma after_function_truncates:
  assumes c: "0 < capacity (buf ctx)"
    and i1: "function_index < length (functions_m m)"
    and i2: "function_index < length (function_header_offsets ctx)"
    and p: "unat (function_num_exprs_offset ctx) < size_buf (buf ctx)"
    and e: "unat (function_header_offsets ctx ! function_index +
                  of_nat (FUNC_HEADER_CODE_END_OFFSET (num_args (functions_m m ! function_index)))) + 4
            \<le> unat (function_num_exprs_offset ctx)"
  shows "\<exists>b'. after_function m function_index n ctx = Some (ctx\<lparr>buf := b'\<rparr>) \<and>
           size_buf b' = size_buf (buf ctx) \<and>
           contents b' ! unat (function_num_exprs_offset ctx) = word_of_int n \<and>
           unat (contents b' ! unat (function_num_exprs_offset ctx)) = nat (n mod 256)"
proof -
  let ?P = "unat (function_num_exprs_offset ctx)"
  let ?e = "function_header_offsets ctx ! function_index +
            of_nat (FUNC_HEADER_CODE_END_OFFSET (num_args (functions_m m ! function_index)))"
  from p have "?P \<le> size_buf (buf ctx)" by simp
  from out_u8_at_total[OF this c, of "word_of_int n"] obtain b1 where
    b1: "out_u8_at (buf ctx) (function_num_exprs_offset ctx) (word_of_int n) = Some b1"
      "patched (buf ctx) ?P [word_of_int n] b1"
    by blast
  from b1(2) c have c1: "0 < capacity b1" and s1: "size_buf b1 = size_buf (buf ctx)"
    by (auto dest: patched_capacity patched_size)
  from e p s1 have "unat ?e \<le> size_buf b1" by simp
  from out_u32_at_total[OF this c1, of "of_nat (size_buf b1)"] obtain b2 where
    b2: "out_u32_at b1 ?e (of_nat (size_buf b1)) = Some b2"
      "patched b1 (unat ?e) (le_bytes 4 (unat (of_nat (size_buf b1) :: u32))) b2"
    by blast
  from b2(2) s1 have s2: "size_buf b2 = size_buf (buf ctx)" by (simp add: patched_size)
  from e have "\<not> (unat ?e \<le> ?P \<and> ?P < unat ?e + length (le_bytes 4 (unat (of_nat (size_buf b1) :: u32))))"
    by simp
  with b2(2) have "start b2 ?P = start b1 ?P" by (simp add: patched_def memcpy_outside)
  with patched_cell[OF b1(2)] have "start b2 ?P = word_of_int n" by simp
  with p s2 have v: "contents b2 ! ?P = word_of_int n" by (simp add: contents_def)
  from b1(1) b2(1) i1 i2 have "after_function m function_index n ctx = Some (ctx\<lparr>buf := b2\<rparr>)"
    by (simp add: after_function_def Let_def)
  with s2 v show ?thesis by (intro exI[of _ b2]) (simp add: unat_word_of_int_u8)
qed

subsection \<open>Literals, calls, conditionals and counted regions\<close>

text \<open>
  Claim C5. On a 32-bit integer literal \<^verbatim>\<open>after_const\<close> appends the compact form, the
  one-byte-operand opcode and the low byte of the value, exactly when \<open>-128 \<le> v < 127\<close> as a
  signed value; otherwise, so also at \<open>v = 127\<close>, it appends the opcode it was given and the
  four bytes of the value. The instance below shows \<open>-128\<close> compact and \<open>127\<close> full-width.
\<close>

theorem after_const_i32_compaction:
  assumes "0 < capacity (buf ctx)"
  shows "\<exists>b'. after_const ops opcode WASM_TYPE_I32 v ctx = Some (ctx\<lparr>buf := b'\<rparr>) \<and>
           contents b' = contents (buf ctx) @
             (if - 128 \<le> sint (i32 v) \<and> sint (i32 v) < 127
              then [word_of_int (WASM_OPCODE_I8_CONST ops), ucast (i32 v)]
              else word_of_int opcode # le_bytes 4 (unat (i32 v)))"
proof -
  have "\<exists>b'. after_const ops opcode WASM_TYPE_I32 v ctx = Some (ctx\<lparr>buf := b'\<rparr>) \<and>
          appended (buf ctx)
            (if - 128 \<le> sint (i32 v) \<and> sint (i32 v) < 127
              then [word_of_int (WASM_OPCODE_I8_CONST ops), ucast (i32 v)]
              else word_of_int opcode # le_bytes 4 (unat (i32 v))) b'"
    using after_const_total[OF assms, of WASM_TYPE_I32 ops opcode v] by simp
  then show ?thesis by (rule appended_to_contents)
qed

theorem after_const_i32_compaction_witness:
  "0 < capacity (buf sample_ctx) \<and>
   (\<exists>b'. after_const sample_opcodes 17 WASM_TYPE_I32 \<lparr>i32 = - 128, i64 = 0, f32 = 0, f64 = 0\<rparr>
            sample_ctx = Some (sample_ctx\<lparr>buf := b'\<rparr>) \<and>
          contents b' = [16, 128]) \<and>
   (\<exists>b'. after_const sample_opcodes 17 WASM_TYPE_I32 \<lparr>i32 = 127, i64 = 0, f32 = 0, f64 = 0\<rparr>
            sample_ctx = Some (sample_ctx\<lparr>buf := b'\<rparr>) \<and>
          contents b' = [17, 127, 0, 0, 0])"
proof -
  note c = sample_ctx_capacity
  have s1: "sint (- 128 :: u32) = - 128" by simp
  have s2: "sint (127 :: u32) = 127" by simp
  have u1: "(4294967168 :: u8) = 128" by simp
  from after_const_i32_compaction[OF c, of sample_opcodes 17 "\<lparr>i32 = - 128, i64 = 0, f32 = 0, f64 = 0\<rparr>"]
  have a: "\<exists>b'. after_const sample_opcodes 17 WASM_TYPE_I32 \<lparr>i32 = - 128, i64 = 0, f32 = 0, f64 = 0\<rparr>
            sample_ctx = Some (sample_ctx\<lparr>buf := b'\<rparr>) \<and> contents b' = [16, 128]"
    by (simp add: s1 u1 sample_ctx_contents sample_opcodes_def)
  from after_const_i32_compaction[OF c, of sample_opcodes 17 "\<lparr>i32 = 127, i64 = 0, f32 = 0, f64 = 0\<rparr>"]
  have b: "\<exists>b'. after_const sample_opcodes 17 WASM_TYPE_I32 \<lparr>i32 = 127, i64 = 0, f32 = 0, f64 = 0\<rparr>
            sample_ctx = Some (sample_ctx\<lparr>buf := b'\<rparr>) \<and> contents b' = [17, 127, 0, 0, 0]"
    by (simp add: s2 sample_ctx_contents le_bytes_numeral)
  from c a b show ?thesis by (intro conjI)
qed

text \<open>
  Claim C8. A call to the declared function \<open>i\<close> appends the call opcode and the
  variable-length encoding of (number of imports + \<open>i\<close>), a call to the import \<open>j\<close> the call
  opcode and the encoding of \<open>j\<close> itself; the indices are converted to 32 bits, and within
  32 bits the encodings decode to these numbers.
\<close>

theorem call_index_remapping:
  assumes "0 < capacity (buf ctx)" and "module ctx = Some m"
  shows "(\<exists>b'. before_call ops function_index ctx = Some (ctx\<lparr>buf := b'\<rparr>) \<and>
            contents b' = contents (buf ctx) @
              word_of_int (WASM_OPCODE_CALL ops) #
              leb128_bytes (word_of_int (int (length (imports_m m)) + function_index))) \<and>
         (0 \<le> function_index \<and> int (length (imports_m m)) + function_index < 2 ^ 32 \<longrightarrow>
            leb128_decode
              (leb128_bytes (word_of_int (int (length (imports_m m)) + function_index))) =
            length (imports_m m) + nat function_index) \<and>
         (\<exists>b'. before_call_import ops import_index ctx = Some (ctx\<lparr>buf := b'\<rparr>) \<and>
            contents b' = contents (buf ctx) @
              word_of_int (WASM_OPCODE_CALL ops) # leb128_bytes (word_of_int import_index)) \<and>
         (0 \<le> import_index \<and> import_index < 2 ^ 32 \<longrightarrow>
            leb128_decode (leb128_bytes (word_of_int import_index)) = nat import_index)"
proof (intro conjI impI)
  show "\<exists>b'. before_call ops function_index ctx = Some (ctx\<lparr>buf := b'\<rparr>) \<and>
            contents b' = contents (buf ctx) @
              word_of_int (WASM_OPCODE_CALL ops) #
              leb128_bytes (word_of_int (int (length (imports_m m)) + function_index))"
    by (rule appended_to_contents) (rule before_call_total[OF assms])
  show "\<exists>b'. before_call_import ops import_index ctx = Some (ctx\<lparr>buf := b'\<rparr>) \<and>
            contents b' = contents (buf ctx) @
              word_of_int (WASM_OPCODE_CALL ops) # leb128_bytes (word_of_int import_index)"
    by (rule appended_to_contents) (rule before_call_import_total[OF assms(1)])
next
  assume a: "0 \<le> function_index \<and> int (length (imports_m m)) + function_index < 2 ^ 32"
  then have "unat (word_of_int (int (length (imports_m m)) + function_index) :: u32) =
             nat (int (length (imports_m m)) + function_index)"
    by (intro unat_word_of_int_u32) auto
  with a show "leb128_decode
              (leb128_bytes (word_of_int (int (length (imports_m m)) + function_index))) =
            length (imports_m m) + nat function_index"
    by (simp only: leb128_decode_bytes) (simp add: nat_add_distrib)
next
  assume "0 \<le> import_index \<and> import_index < 2 ^ 32"
  then show "leb128_decode (leb128_bytes (word_of_int import_index)) = nat import_index"
    by (simp only: leb128_decode_bytes) (simp add: unat_word_of_int_u32)
qed

theorem call_index_remapping_witness:
  "0 < capacity (buf sample_ctx) \<and>
   (\<exists>b'. before_call sample_opcodes 1
            (sample_ctx\<lparr>module := Some \<lparr>max_memory_size = 0, globals = [],
               imports_m = [\<lparr>args = [], result_type = WASM_TYPE_VOID, func_name = ''f''\<rparr>,
                            \<lparr>args = [], result_type = WASM_TYPE_VOID, func_name = ''g''\<rparr>],
               functions_m = [], segments = []\<rparr>\<rparr>) =
          Some (sample_ctx\<lparr>module := Some \<lparr>max_memory_size = 0, globals = [],
               imports_m = [\<lparr>args = [], result_type = WASM_TYPE_VOID, func_name = ''f''\<rparr>,
                            \<lparr>args = [], result_type = WASM_TYPE_VOID, func_name = ''g''\<rparr>],
               functions_m = [], segments = []\<rparr>, buf := b'\<rparr>) \<and>
          contents b' = 9 # leb128_bytes 3) \<and>
   leb128_decode (leb128_bytes 3) = 3 \<and>
   (\<exists>b'. before_call_import sample_opcodes 1
            (sample_ctx\<lparr>module := Some \<lparr>max_memory_size = 0, globals = [],
               imports_m = [\<lparr>args = [], result_type = WASM_TYPE_VOID, func_name = ''f''\<rparr>,
                            \<lparr>args = [], result_type = WASM_TYPE_VOID, func_name = ''g''\<rparr>],
               functions_m = [], segments = []\<rparr>\<rparr>) =
          Some (sample_ctx\<lparr>module := Some \<lparr>max_memory_size = 0, globals = [],
               imports_m = [\<lparr>args = [], result_type = WASM_TYPE_VOID, func_name = ''f''\<rparr>,
                            \<lparr>args = [], result_type = WASM_TYPE_VOID, func_name = ''g''\<rparr>],
               functions_m = [], segments = []\<rparr>, buf := b'\<rparr>) \<and>
          contents b' = 9 # leb128_bytes 1) \<and>
   leb128_decode (leb128_bytes 1) = 1"
proof -
  let ?m = "\<lparr>max_memory_size = 0, globals = [],
               imports_m = [\<lparr>args = [], result_type = WASM_TYPE_VOID, func_name = ''f''\<rparr>,
                            \<lparr>args = [], result_type = WASM_TYPE_VOID, func_name = ''g''\<rparr>],
               functions_m = [], segments = []\<rparr>"
  let ?ctx = "sample_ctx\<lparr>module := Some ?m\<rparr>"
  have c: "0 < capacity (buf ?ctx)" using sample_ctx_capacity by simp
  have m: "module ?ctx = Some ?m" by simp
  have e: "contents (buf ?ctx) = []" using sample_ctx_contents by simp
  note t = call_index_remapping[OF c m, of sample_opcodes 1 1]
  from t[THEN conjunct1]
  have a: "\<exists>b'. before_call sample_opcodes 1 ?ctx = Some (?ctx\<lparr>buf := b'\<rparr>) \<and>
             contents b' = 9 # leb128_bytes 3"
    unfolding e by (simp add: sample_opcodes_def)
  from t[THEN conjunct2, THEN conjunct1]
  have b: "leb128_decode (leb128_bytes 3) = 3" by simp
  from t[THEN conjunct2, THEN conjunct2, THEN conjunct1]
  have a': "\<exists>b'. before_call_import sample_opcodes 1 ?ctx = Some (?ctx\<lparr>buf := b'\<rparr>) \<and>
             contents b' = 9 # leb128_bytes 1"
    unfolding e by (simp add: sample_opcodes_def)
  from t[THEN conjunct2, THEN conjunct2, THEN conjunct2]
  have b': "leb128_decode (leb128_bytes 1) = 1" by simp
  from sample_ctx_capacity a b a' b' show ?thesis by (intro conjI)
qed

text \<open>
  Claim C6. \<^verbatim>\<open>before_if\<close> returns as cookie the offset at which it then writes the
  two-branch-absent opcode. Whatever callbacks follow, \<^verbatim>\<open>after_if\<close> without an alternate
  returns the context unchanged, and with an alternate it replaces the byte at the cookie by
  the two-branch opcode and nothing else. The buffer is allocated and shorter than \<open>2^32\<close>
  bytes, the range of the \<^verbatim>\<open>uint32_t\<close> offset kept in the cookie.
\<close>

theorem conditional_backpatch:
  assumes "0 < capacity (buf ctx)" and "size_buf (buf ctx) < 2 ^ 32"
  shows "\<exists>b1. before_if ops ctx = Some (size_buf (buf ctx), ctx\<lparr>buf := b1\<rparr>) \<and>
           contents b1 = contents (buf ctx) @ [word_of_int (WASM_OPCODE_IF ops)] \<and>
           (\<forall>es ctx2. callbacks ops es (ctx\<lparr>buf := b1\<rparr>) = Some ctx2 \<longrightarrow>
              after_if ops 0 (size_buf (buf ctx)) ctx2 = Some ctx2 \<and>
              (\<forall>with_else. with_else \<noteq> 0 \<longrightarrow>
                 (\<exists>b3. after_if ops with_else (size_buf (buf ctx)) ctx2 = Some (ctx2\<lparr>buf := b3\<rparr>) \<and>
                       contents b3 =
                         (contents (buf ctx2))[size_buf (buf ctx) := word_of_int (WASM_OPCODE_IF_THEN ops)] \<and>
                       size_buf (buf ctx) < length (contents b3))))"
proof -
  let ?cookie = "size_buf (buf ctx)"
  have u: "unat (of_nat ?cookie :: u32) = ?cookie" using assms(2) by (rule unat_of_nat_u32)
  obtain b1 where o: "before_if ops ctx = Some (?cookie, ctx\<lparr>buf := b1\<rparr>)"
      and a: "appended (buf ctx) [word_of_int (WASM_OPCODE_IF ops)] b1"
    using before_if_total[OF assms(1), of ops] unfolding u by blast
  have "after_if ops 0 ?cookie ctx2 = Some ctx2 \<and>
        (\<forall>with_else. with_else \<noteq> 0 \<longrightarrow>
           (\<exists>b3. after_if ops with_else ?cookie ctx2 = Some (ctx2\<lparr>buf := b3\<rparr>) \<and>
                 contents b3 = (contents (buf ctx2))[?cookie := word_of_int (WASM_OPCODE_IF_THEN ops)] \<and>
                 ?cookie < length (contents b3)))"
    if r: "callbacks ops es (ctx\<lparr>buf := b1\<rparr>) = Some ctx2" for es ctx2
  proof (intro conjI allI impI)
    show "after_if ops 0 ?cookie ctx2 = Some ctx2" by (rule after_if_no_else)
  next
    fix with_else :: int
    assume nz: "with_else \<noteq> 0"
    from callbacks_after_append[OF a assms(1) r]
    have c2: "0 < capacity (buf ctx2)" and s2: "?cookie < size_buf (buf ctx2)" by simp_all
    from s2 have le: "unat (of_nat ?cookie :: u32) \<le> size_buf (buf ctx2)" unfolding u by simp
    from after_if_total[OF c2 le nz, of ops] obtain b3 where
      b3: "after_if ops with_else ?cookie ctx2 = Some (ctx2\<lparr>buf := b3\<rparr>)"
        "patched (buf ctx2) ?cookie [word_of_int (WASM_OPCODE_IF_THEN ops)] b3"
      unfolding u by blast
    from b3(2) s2 have "?cookie < length (contents b3)" by (simp add: patched_size)
    with b3(1) patched_contents1[OF b3(2)]
    show "\<exists>b3. after_if ops with_else ?cookie ctx2 = Some (ctx2\<lparr>buf := b3\<rparr>) \<and>
                 contents b3 = (contents (buf ctx2))[?cookie := word_of_int (WASM_OPCODE_IF_THEN ops)] \<and>
                 ?cookie < length (contents b3)"
      by blast
  qed
  with o appended_contents[OF a] show ?thesis by blast
qed

theorem conditional_backpatch_witness:
  "0 < capacity (buf sample_ctx) \<and> size_buf (buf sample_ctx) < 2 ^ 32 \<and>
   (\<exists>b1 ctx2 b3.
      before_if sample_opcodes sample_ctx = Some (0, sample_ctx\<lparr>buf := b1\<rparr>) \<and>
      contents b1 = [3] \<and>
      callbacks sample_opcodes [After_nop] (sample_ctx\<lparr>buf := b1\<rparr>) = Some ctx2 \<and>
      after_if sample_opcodes 0 0 ctx2 = Some ctx2 \<and>
      after_if sample_opcodes 1 0 ctx2 = Some (ctx2\<lparr>buf := b3\<rparr>) \<and>
      contents b3 = [4, 0])"
proof -
  note c = sample_ctx_capacity
  have s: "size_buf (buf sample_ctx) < 2 ^ 32" by (simp add: sample_ctx_size)
  from conditional_backpatch[OF c s, of sample_opcodes] obtain b1 where
    o: "before_if sample_opcodes sample_ctx = Some (size_buf (buf sample_ctx), sample_ctx\<lparr>buf := b1\<rparr>)"
    and c1: "contents b1 = contents (buf sample_ctx) @ [word_of_int (WASM_OPCODE_IF sample_opcodes)]"
    and cl: "\<forall>es ctx2. callbacks sample_opcodes es (sample_ctx\<lparr>buf := b1\<rparr>) = Some ctx2 \<longrightarrow>
              after_if sample_opcodes 0 (size_buf (buf sample_ctx)) ctx2 = Some ctx2 \<and>
              (\<forall>with_else. with_else \<noteq> 0 \<longrightarrow>
                 (\<exists>b3. after_if sample_opcodes with_else (size_buf (buf sample_ctx)) ctx2 = Some (ctx2\<lparr>buf := b3\<rparr>) \<and>
                       contents b3 =
                         (contents (buf ctx2))[size_buf (buf sample_ctx) := word_of_int (WASM_OPCODE_IF_THEN sample_opcodes)] \<and>
                       size_buf (buf sample_ctx) < length (contents b3)))"
    by (elim exE conjE)
  from before_if_total[OF c, of sample_opcodes] o have "0 < capacity b1"
    using c by (auto dest: appended_capacity dest!: buf_update_eqD)
  then have "0 < capacity (buf (sample_ctx\<lparr>buf := b1\<rparr>))" by simp
  from callbacks_nop[OF this, of sample_opcodes] obtain b2 where
    r: "callbacks sample_opcodes [After_nop] (sample_ctx\<lparr>buf := b1\<rparr>) = Some (sample_ctx\<lparr>buf := b2\<rparr>)"
    and c2: "contents b2 = contents b1 @ [word_of_int (WASM_OPCODE_NOP sample_opcodes)]"
    by auto
  note k = cl[rule_format, OF r]
  from k[THEN conjunct1] have n: "after_if sample_opcodes 0 0 (sample_ctx\<lparr>buf := b2\<rparr>) = Some (sample_ctx\<lparr>buf := b2\<rparr>)"
    by (simp add: sample_ctx_size)
  have one: "(1 :: int) \<noteq> 0" by simp
  from k[THEN conjunct2, rule_format, OF one] obtain b3 where
    a: "after_if sample_opcodes 1 (size_buf (buf sample_ctx)) (sample_ctx\<lparr>buf := b2\<rparr>) =
          Some (sample_ctx\<lparr>buf := b2\<rparr>\<lparr>buf := b3\<rparr>)"
    and c3: "contents b3 = (contents (buf (sample_ctx\<lparr>buf := b2\<rparr>)))[size_buf (buf sample_ctx) :=
               word_of_int (WASM_OPCODE_IF_THEN sample_opcodes)]"
    by (elim exE conjE)
  from c1 have c1': "contents b1 = [3]" by (simp add: sample_ctx_contents sample_opcodes_def)
  from c1' c2 c3 have "contents b3 = [4, 0]"
    by (simp add: sample_ctx_size sample_opcodes_def)
  with o c1' r n a have "\<exists>b1 ctx2 b3.
      before_if sample_opcodes sample_ctx = Some (0, sample_ctx\<lparr>buf := b1\<rparr>) \<and>
      contents b1 = [3] \<and>
      callbacks sample_opcodes [After_nop] (sample_ctx\<lparr>buf := b1\<rparr>) = Some ctx2 \<and>
      after_if sample_opcodes 0 0 ctx2 = Some ctx2 \<and>
      after_if sample_opcodes 1 0 ctx2 = Some (ctx2\<lparr>buf := b3\<rparr>) \<and>
      contents b3 = [4, 0]"
    by (intro exI[of _ b1] exI[of _ "sample_ctx\<lparr>buf := b2\<rparr>"] exI[of _ b3])
       (simp add: sample_ctx_size)
  with c s show ?thesis by (intro conjI)
qed

text \<open>
  Claim C4, as amended. For a block, a loop and a labeled region (which is emitted as a
  block): the open callback appends the opcode and one zero byte and returns the offset of
  that byte; whatever callbacks follow, the close callback with count \<open>n\<close> stores \<open>n\<close> as a
  \<^verbatim>\<open>uint8_t\<close> there and changes nothing else, so the byte is \<open>n mod 256\<close>: it is \<open>n\<close> when
  \<open>n < 256\<close>. This holds for every count, so for the number of top-level expressions
  emitted between the open and the close. The buffer is allocated and the placeholder lies
  below \<open>2^32\<close>.
\<close>

theorem region_backpatch:
  assumes "0 < capacity (buf ctx)" and "Suc (size_buf (buf ctx)) < 2 ^ 32"
  shows "(\<exists>b1. before_block ops ctx = Some (Suc (size_buf (buf ctx)), ctx\<lparr>buf := b1\<rparr>) \<and>
           contents b1 = contents (buf ctx) @ [word_of_int (WASM_OPCODE_BLOCK ops), 0] \<and>
           (\<forall>es ctx2 n. callbacks ops es (ctx\<lparr>buf := b1\<rparr>) = Some ctx2 \<longrightarrow>
              (\<exists>b3. after_block n (Suc (size_buf (buf ctx))) ctx2 = Some (ctx2\<lparr>buf := b3\<rparr>) \<and>
                    contents b3 = (contents (buf ctx2))[Suc (size_buf (buf ctx)) := word_of_int n] \<and>
                    Suc (size_buf (buf ctx)) < length (contents b3) \<and>
                    unat (contents b3 ! Suc (size_buf (buf ctx))) = nat (n mod 256)))) \<and>
         (\<exists>b1. before_loop ops ctx = Some (Suc (size_buf (buf ctx)), ctx\<lparr>buf := b1\<rparr>) \<and>
           contents b1 = contents (buf ctx) @ [word_of_int (WASM_OPCODE_LOOP ops), 0] \<and>
           (\<forall>es ctx2 n. callbacks ops es (ctx\<lparr>buf := b1\<rparr>) = Some ctx2 \<longrightarrow>
              (\<exists>b3. after_loop n (Suc (size_buf (buf ctx))) ctx2 = Some (ctx2\<lparr>buf := b3\<rparr>) \<and>
                    contents b3 = (contents (buf ctx2))[Suc (size_buf (buf ctx)) := word_of_int n] \<and>
                    Suc (size_buf (buf ctx)) < length (contents b3) \<and>
                    unat (contents b3 ! Suc (size_buf (buf ctx))) = nat (n mod 256)))) \<and>
         (\<exists>b1. before_label ops ctx = Some (Suc (size_buf (buf ctx)), ctx\<lparr>buf := b1\<rparr>) \<and>
           contents b1 = contents (buf ctx) @ [word_of_int (WASM_OPCODE_BLOCK ops), 0] \<and>
           (\<forall>es ctx2 n. callbacks ops es (ctx\<lparr>buf := b1\<rparr>) = Some ctx2 \<longrightarrow>
              (\<exists>b3. after_label n (Suc (size_buf (buf ctx))) ctx2 = Some (ctx2\<lparr>buf := b3\<rparr>) \<and>
                    contents b3 = (contents (buf ctx2))[Suc (size_buf (buf ctx)) := word_of_int n] \<and>
                    Suc (size_buf (buf ctx)) < length (contents b3) \<and>
                    unat (contents b3 ! Suc (size_buf (buf ctx))) = nat (n mod 256))))"
  using block_region[OF assms] loop_region[OF assms] label_region[OF assms] by (intro conjI)

theorem region_backpatch_witness:
  "0 < capacity (buf sample_ctx) \<and> Suc (size_buf (buf sample_ctx)) < 2 ^ 32 \<and>
   (\<exists>b1 ctx2 b3.
      before_block sample_opcodes sample_ctx = Some (1, sample_ctx\<lparr>buf := b1\<rparr>) \<and>
      callbacks sample_opcodes [After_nop] (sample_ctx\<lparr>buf := b1\<rparr>) = Some ctx2 \<and>
      after_block 1 1 ctx2 = Some (ctx2\<lparr>buf := b3\<rparr>) \<and>
      contents b3 = [1, 1, 0])"
proof -
  note c = sample_ctx_capacity
  have s: "Suc (size_buf (buf sample_ctx)) < 2 ^ 32" by (simp add: sample_ctx_size)
  from region_backpatch[OF c s, of sample_opcodes, THEN conjunct1] obtain b1 where
    o: "before_block sample_opcodes sample_ctx = Some (Suc (size_buf (buf sample_ctx)), sample_ctx\<lparr>buf := b1\<rparr>)"
    and c1: "contents b1 = contents (buf sample_ctx) @ [word_of_int (WASM_OPCODE_BLOCK sample_opcodes), 0]"
    and cl: "\<forall>es ctx2 n. callbacks sample_opcodes es (sample_ctx\<lparr>buf := b1\<rparr>) = Some ctx2 \<longrightarrow>
              (\<exists>b3. after_block n (Suc (size_buf (buf sample_ctx))) ctx2 = Some (ctx2\<lparr>buf := b3\<rparr>) \<and>
                    contents b3 = (contents (buf ctx2))[Suc (size_buf (buf sample_ctx)) := word_of_int n] \<and>
                    Suc (size_buf (buf sample_ctx)) < length (contents b3) \<and>
                    unat (contents b3 ! Suc (size_buf (buf sample_ctx))) = nat (n mod 256))"
    by (elim exE conjE)
  from before_block_total[OF c, of sample_opcodes] o have "0 < capacity b1"
    using c by (auto dest: appended_capacity dest!: buf_update_eqD)
  then have "0 < capacity (buf (sample_ctx\<lparr>buf := b1\<rparr>))" by simp
  from callbacks_nop[OF this, of sample_opcodes] obtain b2 where
    r: "callbacks sample_opcodes [After_nop] (sample_ctx\<lparr>buf := b1\<rparr>) = Some (sample_ctx\<lparr>buf := b2\<rparr>)"
    and c2: "contents b2 = contents b1 @ [word_of_int (WASM_OPCODE_NOP sample_opcodes)]"
    by auto
  from cl[rule_format, OF r, of 1] obtain b3 where
    a: "after_block 1 (Suc (size_buf (buf sample_ctx))) (sample_ctx\<lparr>buf := b2\<rparr>) =
          Some (sample_ctx\<lparr>buf := b2\<rparr>\<lparr>buf := b3\<rparr>)"
    and c3: "contents b3 = (contents (buf (sample_ctx\<lparr>buf := b2\<rparr>)))[Suc (size_buf (buf sample_ctx)) := word_of_int 1]"
    by (elim exE conjE)
  from c1 c2 c3 have "contents b3 = [1, 1, 0]"
    by (simp add: sample_ctx_contents sample_ctx_size sample_opcodes_def)
  with o r a have "\<exists>b1 ctx2 b3.
      before_block sample_opcodes sample_ctx = Some (1, sample_ctx\<lparr>buf := b1\<rparr>) \<and>
      callbacks sample_opcodes [After_nop] (sample_ctx\<lparr>buf := b1\<rparr>) = Some ctx2 \<and>
      after_block 1 1 ctx2 = Some (ctx2\<lparr>buf := b3\<rparr>) \<and>
      contents b3 = [1, 1, 0]"
    by (intro exI[of _ b1] exI[of _ "sample_ctx\<lparr>buf := b2\<rparr>"] exI[of _ b3])
       (simp add: sample_ctx_size)
  with c s show ?thesis by (intro conjI)
qed

lemma callbacks_nops:
  "0 < capacity (buf c) \<Longrightarrow>
   \<exists>b'. callbacks ops (replicate k After_nop) c = Some (c\<lparr>buf := b'\<rparr>) \<and>
        appended (buf c) (replicate k (word_of_int (WASM_OPCODE_NOP ops))) b'"
proof (induction k arbitrary: c)
  case 0
  show ?case by (intro exI[of _ "buf c"]) (simp add: appended_Nil)
next
  case (Suc k)
  from after_nop_total[OF Suc.prems, of ops] obtain b1 where
    r1: "after_nop ops c = Some (c\<lparr>buf := b1\<rparr>)"
    and a1: "appended (buf c) [word_of_int (WASM_OPCODE_NOP ops)] b1"
    by (elim exE conjE)
  from a1 Suc.prems have "0 < capacity (buf (c\<lparr>buf := b1\<rparr>))" by (simp add: appended_def)
  from Suc.IH[OF this] obtain b2 where
    r2: "callbacks ops (replicate k After_nop) (c\<lparr>buf := b1\<rparr>) = Some (c\<lparr>buf := b1\<rparr>\<lparr>buf := b2\<rparr>)"
    and a2: "appended (buf (c\<lparr>buf := b1\<rparr>)) (replicate k (word_of_int (WASM_OPCODE_NOP ops))) b2"
    by (elim exE conjE)
  from a2 have a2': "appended b1 (replicate k (word_of_int (WASM_OPCODE_NOP ops))) b2" by simp
  from appended_trans[OF a1 a2']
  have "appended (buf c) (replicate (Suc k) (word_of_int (WASM_OPCODE_NOP ops))) b2" by simp
  moreover from r1 r2 have "callbacks ops (replicate (Suc k) After_nop) c = Some (c\<lparr>buf := b2\<rparr>)"
    by simp
  ultimately show ?case by (intro exI[of _ b2] conjI)
qed

lemma nop_block_result:
  assumes c: "0 < capacity (buf ctx)" and lt: "Suc (size_buf (buf ctx)) < 2 ^ 32"
  shows "nop_block ops ctx k = Some (Suc (size_buf (buf ctx)), size_buf (buf ctx) + 2 + k, k mod 256)"
proof -
  let ?n = "size_buf (buf ctx)"
  from before_block_total[OF c, of ops] obtain b1 where
    o: "before_block ops ctx = Some (Suc ?n, ctx\<lparr>buf := b1\<rparr>)"
    and a1: "appended (buf ctx) [word_of_int (WASM_OPCODE_BLOCK ops), 0] b1"
    by (elim exE conjE)
  from a1 c have c1: "0 < capacity (buf (ctx\<lparr>buf := b1\<rparr>))" by (simp add: appended_def)
  from a1 have s1: "size_buf b1 = ?n + 2" by (simp add: appended_def)
  from callbacks_nops[OF c1, of ops k] obtain b2 where
    r: "callbacks ops (replicate k After_nop) (ctx\<lparr>buf := b1\<rparr>) = Some (ctx\<lparr>buf := b1\<rparr>\<lparr>buf := b2\<rparr>)"
    and a2: "appended (buf (ctx\<lparr>buf := b1\<rparr>)) (replicate k (word_of_int (WASM_OPCODE_NOP ops))) b2"
    by (elim exE conjE)
  let ?c2 = "ctx\<lparr>buf := b1\<rparr>\<lparr>buf := b2\<rparr>"
  from a2 have s2: "size_buf b2 = ?n + 2 + k" by (simp add: appended_def s1)
  from a2 c1 have c2: "0 < capacity (buf ?c2)" by (simp add: appended_def)
  have u: "unat (of_nat (Suc ?n) :: u32) = Suc ?n" using lt by (rule unat_of_nat_u32)
  have le: "unat (of_nat (Suc ?n) :: u32) \<le> size_buf (buf ?c2)" unfolding u by (simp add: s2)
  from after_block_total[OF c2 le, of "int k"] obtain b3 where
    cl: "after_block (int k) (Suc ?n) ?c2 = Some (?c2\<lparr>buf := b3\<rparr>)"
    and p: "patched (buf ?c2) (unat (of_nat (Suc ?n) :: u32)) [word_of_int (int k)] b3"
    by (elim exE conjE)
  from p have p': "patched b2 (Suc ?n) [word_of_int (int k)] b3" unfolding u by simp
  from patched_cell[OF p'] have v: "start b3 (Suc ?n) = word_of_int (int k)" .
  have "unat (word_of_int (int k) :: u8) = k mod 256" by (simp add: unat_of_nat)
  with v have v': "unat (start b3 (Suc ?n)) = k mod 256" by simp
  from p' have s3: "size_buf b3 = ?n + 2 + k" by (simp add: patched_def s2)
  from o r cl v' s3 show ?thesis by (simp add: nop_block_def)
qed

text \<open>
  The claim as stated fails for a block of 256 no-ops: opened on the empty buffer, its
  cookie is 1; after the close with the count 256 of the expressions emitted in it the
  buffer holds 258 bytes, and the byte at the cookie is 0, not 256.
\<close>

theorem block_count_256_counterexample:
  "nop_block sample_opcodes sample_ctx 256 = Some (1, 258, 0)"
  using nop_block_result[OF sample_ctx_capacity, of sample_opcodes 256]
  by (simp add: sample_ctx_size)

text \<open>
  Claim C10. A close callback of a block, loop or labeled region with count \<open>n\<close> succeeds
  and leaves \<open>n mod 256\<close> in the placeholder byte, for every \<open>n\<close>; so does \<^verbatim>\<open>after_function\<close>
  for the implicit block of a function body, whose placeholder lies after the function's
  header. No count is rejected.
\<close>

theorem count_byte_truncation:
  assumes "0 < capacity (buf ctx)"
  shows "(cookie < size_buf (buf ctx) \<and> cookie < 2 ^ 32 \<longrightarrow>
            (\<exists>b'. after_block n cookie ctx = Some (ctx\<lparr>buf := b'\<rparr>) \<and>
                  contents b' = (contents (buf ctx))[cookie := word_of_int n] \<and>
                  unat (contents b' ! cookie) = nat (n mod 256)) \<and>
            (\<exists>b'. after_loop n cookie ctx = Some (ctx\<lparr>buf := b'\<rparr>) \<and>
                  contents b' = (contents (buf ctx))[cookie := word_of_int n] \<and>
                  unat (contents b' ! cookie) = nat (n mod 256)) \<and>
            (\<exists>b'. after_label n cookie ctx = Some (ctx\<lparr>buf := b'\<rparr>) \<and>
                  contents b' = (contents (buf ctx))[cookie := word_of_int n] \<and>
                  unat (contents b' ! cookie) = nat (n mod 256))) \<and>
         (function_index < length (functions_m m) \<and>
          function_index < length (function_header_offsets ctx) \<and>
          unat (function_num_exprs_offset ctx) < size_buf (buf ctx) \<and>
          unat (function_header_offsets ctx ! function_index +
                of_nat (FUNC_HEADER_CODE_END_OFFSET (num_args (functions_m m ! function_index)))) + 4
            \<le> unat (function_num_exprs_offset ctx) \<longrightarrow>
            (\<exists>b'. after_function m function_index n ctx = Some (ctx\<lparr>buf := b'\<rparr>) \<and>
                  size_buf b' = size_buf (buf ctx) \<and>
                  contents b' ! unat (function_num_exprs_offset ctx) = word_of_int n \<and>
                  unat (contents b' ! unat (function_num_exprs_offset ctx)) = nat (n mod 256)))"
proof (intro conjI impI)
  assume a: "cookie < size_buf (buf ctx) \<and> cookie < 2 ^ 32"
  then have lt: "cookie < size_buf (buf ctx)" and w: "cookie < 2 ^ 32" by simp_all
  show "\<exists>b'. after_block n cookie ctx = Some (ctx\<lparr>buf := b'\<rparr>) \<and>
                  contents b' = (contents (buf ctx))[cookie := word_of_int n] \<and>
                  unat (contents b' ! cookie) = nat (n mod 256)"
    by (rule close_truncates[OF assms lt w]) (rule after_block_total[OF assms])
  show "\<exists>b'. after_loop n cookie ctx = Some (ctx\<lparr>buf := b'\<rparr>) \<and>
                  contents b' = (contents (buf ctx))[cookie := word_of_int n] \<and>
                  unat (contents b' ! cookie) = nat (n mod 256)"
    by (rule close_truncates[OF assms lt w]) (rule after_loop_total[OF assms])
  show "\<exists>b'. after_label n cookie ctx = Some (ctx\<lparr>buf := b'\<rparr>) \<and>
                  contents b' = (contents (buf ctx))[cookie := word_of_int n] \<and>
                  unat (contents b' ! cookie) = nat (n mod 256)"
    by (rule close_truncates[OF assms lt w]) (rule after_label_total[OF assms])
next
  assume "function_index < length (functions_m m) \<and>
          function_index < length (function_header_offsets ctx) \<and>
          unat (function_num_exprs_offset ctx) < size_buf (buf ctx) \<and>
          unat (function_header_offsets ctx ! function_index +
                of_nat (FUNC_HEADER_CODE_END_OFFSET (num_args (functions_m m ! function_index)))) + 4
            \<le> unat (function_num_exprs_offset ctx)"
  then show "\<exists>b'. after_function m function_index n ctx = Some (ctx\<lparr>buf := b'\<rparr>) \<and>
                  size_buf b' = size_buf (buf ctx) \<and>
                  contents b' ! unat (function_num_exprs_offset ctx) = word_of_int n \<and>
                  unat (contents b' ! unat (function_num_exprs_offset ctx)) = nat (n mod 256)"
    using after_function_truncates[OF assms] by blast
qed

theorem count_byte_truncation_witness:
  "0 < capacity (buf (sample_ctx\<lparr>buf := \<lparr>start = (\<lambda>i. 0), size_buf = 40, capacity = 64\<rparr>,
                       function_num_exprs_offset := 33, function_header_offsets := [8]\<rparr>)) \<and>
   (\<exists>b'. after_block 263 5
            (sample_ctx\<lparr>buf := \<lparr>start = (\<lambda>i. 0), size_buf = 40, capacity = 64\<rparr>,
                       function_num_exprs_offset := 33, function_header_offsets := [8]\<rparr>) =
          Some (sample_ctx\<lparr>buf := \<lparr>start = (\<lambda>i. 0), size_buf = 40, capacity = 64\<rparr>,
                       function_num_exprs_offset := 33, function_header_offsets := [8]\<rparr>\<lparr>buf := b'\<rparr>) \<and>
          unat (contents b' ! 5) = 7) \<and>
   (\<exists>b'. after_function sample_module 0 256
            (sample_ctx\<lparr>buf := \<lparr>start = (\<lambda>i. 0), size_buf = 40, capacity = 64\<rparr>,
                       function_num_exprs_offset := 33, function_header_offsets := [8]\<rparr>) =
          Some (sample_ctx\<lparr>buf := \<lparr>start = (\<lambda>i. 0), size_buf = 40, capacity = 64\<rparr>,
                       function_num_exprs_offset := 33, function_header_offsets := [8]\<rparr>\<lparr>buf := b'\<rparr>) \<and>
          unat (contents b' ! 33) = 0)"
proof -
  let ?ctx = "sample_ctx\<lparr>buf := \<lparr>start = (\<lambda>i. 0), size_buf = 40, capacity = 64\<rparr>,
                       function_num_exprs_offset := 33, function_header_offsets := [8]\<rparr>"
  have c: "0 < capacity (buf ?ctx)" by simp
  note t = count_byte_truncation[OF c, of _ _ 0 sample_module]
  have h1: "5 < size_buf (buf ?ctx) \<and> (5 :: nat) < 2 ^ 32" by simp
  from t[of 5 263, THEN conjunct1, rule_format, OF h1, THEN conjunct1]
  have a: "\<exists>b'. after_block 263 5 ?ctx = Some (?ctx\<lparr>buf := b'\<rparr>) \<and> unat (contents b' ! 5) = 7"
    by auto
  have h2: "0 < length (functions_m sample_module) \<and>
          0 < length (function_header_offsets ?ctx) \<and>
          unat (function_num_exprs_offset ?ctx) < size_buf (buf ?ctx) \<and>
          unat (function_header_offsets ?ctx ! 0 +
                of_nat (FUNC_HEADER_CODE_END_OFFSET (num_args (functions_m sample_module ! 0)))) + 4
            \<le> unat (function_num_exprs_offset ?ctx)"
    by (simp add: sample_module_def FUNC_HEADER_CODE_END_OFFSET_def FUNC_SIG_SIZE_def)
  from t[of 0 256, THEN conjunct2, rule_format, OF h2]
  have b: "\<exists>b'. after_function sample_module 0 256 ?ctx = Some (?ctx\<lparr>buf := b'\<rparr>) \<and>
             unat (contents b' ! 33) = 0"
    by auto
  from c a b show ?thesis by (intro conjI)
qed

section \<open>The module header and the layout pre-pass\<close>

lemma emitsI:
  "(\<And>b. 0 < capacity b \<Longrightarrow> \<exists>b'. f b = Some (wrap b') \<and> appended b bs b') \<Longrightarrow> emits f wrap bs"
  by (simp add: emits_def)

lemma emitsD:
  "emits f wrap bs \<Longrightarrow> 0 < capacity b \<Longrightarrow> \<exists>b'. f b = Some (wrap b') \<and> appended b bs b'"
  by (simp add: emits_def)

lemma emits_bind:
  assumes f: "emits f (\<lambda>b. b) bs" and g: "emits g wrap cs"
  shows "emits (\<lambda>b. f b \<bind> g) wrap (bs @ cs)"
proof (rule emitsI)
  fix b :: OutputBuffer
  assume c: "0 < capacity b"
  from emitsD[OF f c] obtain b1 where b1: "f b = Some b1" "appended b bs b1" by blast
  from b1(2) c have "0 < capacity b1" by (rule appended_capacity)
  from emitsD[OF g this] obtain b2 where b2: "g b1 = Some (wrap b2)" "appended b1 cs b2" by blast
  from b1 b2 show "\<exists>b'. f b \<bind> g = Some (wrap b') \<and> appended b (bs @ cs) b'"
    by (auto intro: appended_trans)
qed

lemma emits_return: "emits (\<lambda>b. Some (wrap b)) wrap []"
  by (rule emitsI) (auto intro: appended_Nil)

lemma emits_bind_return:
  assumes f: "emits f (\<lambda>b. b) bs"
  shows "emits (\<lambda>b. f b \<bind> (\<lambda>b. Some (wrap b))) wrap bs"
  using emits_bind[OF f emits_return[of wrap]] by simp

lemma emits_u8: "emits (\<lambda>b. out_u8 b v) (\<lambda>b. b) [v]"
  by (rule emitsI) (rule out_u8_total)

lemma emits_u16: "emits (\<lambda>b. out_u16 b v) (\<lambda>b. b) (le_bytes 2 (unat v))"
  by (rule emitsI) (rule out_u16_total)

lemma emits_u32: "emits (\<lambda>b. out_u32 b v) (\<lambda>b. b) (le_bytes 4 (unat v))"
  by (rule emitsI) (rule out_u32_total)

lemma emits_opcode: "emits (\<lambda>b. out_opcode b opcode) (\<lambda>b. b) [word_of_int opcode]"
  by (rule emitsI) (rule out_opcode_total)

lemma emits_cstr: "emits (\<lambda>b. out_cstr b s) (\<lambda>b. b) (cstr_bytes s)"
  by (rule emitsI) (rule out_cstr_total)

lemma emits_cong: "emits f wrap bs \<Longrightarrow> bs = cs \<Longrightarrow> emits f wrap cs"
  by simp

lemma unat_u32_0: "unat (0 :: u32) = 0" by simp

lemma unat_u16_0: "unat (0 :: u16) = 0" by simp

lemma emits_global_headers:
  "emits (\<lambda>b. out_global_headers b gs) (\<lambda>b. b) (concat (map global_header_bytes gs))"
proof (induction gs)
  case Nil
  show ?case using emits_return[of "\<lambda>b. b"] by simp
next
  case (Cons g gs)
  have "emits (\<lambda>b. out_u32 b 0 \<bind> (\<lambda>b. out_u8 b (global_type_codes (type g)) \<bind>
           (\<lambda>b. out_u8 b 0 \<bind> (\<lambda>b. out_global_headers b gs)))) (\<lambda>b. b)
         (le_bytes 4 (unat (0 :: u32)) @ [global_type_codes (type g)] @ [0] @
          concat (map global_header_bytes gs))"
    by (intro emits_bind emits_u32 emits_u8 Cons.IH)
  moreover have "le_bytes 4 (unat (0 :: u32)) @ [global_type_codes (type g)] @ [0] @
          concat (map global_header_bytes gs) = concat (map global_header_bytes (g # gs))"
    by (simp add: global_header_bytes_def)
  ultimately have "emits (\<lambda>b. out_u32 b 0 \<bind> (\<lambda>b. out_u8 b (global_type_codes (type g)) \<bind>
           (\<lambda>b. out_u8 b 0 \<bind> (\<lambda>b. out_global_headers b gs)))) (\<lambda>b. b)
         (concat (map global_header_bytes (g # gs)))"
    by (rule emits_cong)
  then show ?case by simp
qed

lemma emits_arg_types:
  "\<forall>j\<in>set js. j < length vars \<Longrightarrow>
   emits (\<lambda>b. out_arg_types b vars js) (\<lambda>b. b) (map (\<lambda>j. of_nat (type_value (type (vars ! j)))) js)"
proof (induction js)
  case Nil
  show ?case using emits_return[of "\<lambda>b. b"] by simp
next
  case (Cons j js)
  then have IH: "emits (\<lambda>b. out_arg_types b vars js) (\<lambda>b. b)
                   (map (\<lambda>j. of_nat (type_value (type (vars ! j)))) js)" by simp
  have "emits (\<lambda>b. out_u8 b (of_nat (type_value (type (vars ! j)))) \<bind>
                 (\<lambda>b. out_arg_types b vars js)) (\<lambda>b. b)
          ([of_nat (type_value (type (vars ! j)))] @
           map (\<lambda>j. of_nat (type_value (type (vars ! j)))) js)"
    by (intro emits_bind emits_u8 IH)
  with Cons.prems show ?case by simp
qed

lemma emits_arg_types_upto:
  assumes "n \<le> length vars"
  shows "emits (\<lambda>b. out_arg_types b vars [0..<n]) (\<lambda>b. b) (arg_type_bytes (take n vars))"
proof -
  have "map (\<lambda>j. of_nat (type_value (type (vars ! j)))) [0..<n] = (arg_type_bytes (take n vars) :: u8 list)"
    using assms by (intro nth_equalityI) (simp_all add: arg_type_bytes_def)
  moreover have "\<forall>j\<in>set [0..<n]. j < length vars" using assms by simp
  ultimately show ?thesis using emits_arg_types[of "[0..<n]" vars] by simp
qed

lemma unat_of_nat_u16: "unat (of_nat n :: u16) = n mod 2 ^ 16"
  by (simp add: unat_of_nat)

lemma unat_of_nat_u32_mod: "unat (of_nat n :: u32) = n mod 2 ^ 32"
  by (simp add: unat_of_nat)

lemma emits_import_headers:
  "emits (\<lambda>b. out_import_headers b imps) (\<lambda>b. b) (concat (map import_header_bytes imps))"
proof (induction imps)
  case Nil
  show ?case using emits_return[of "\<lambda>b. b"] by simp
next
  case (Cons i imps)
  have a: "emits (\<lambda>b. out_arg_types b (args i) [0..<length (args i)]) (\<lambda>b. b)
             (arg_type_bytes (take (length (args i)) (args i)))"
    by (rule emits_arg_types_upto) simp
  have "emits (\<lambda>b. out_u8 b (of_nat (length (args i))) \<bind>
          (\<lambda>b. out_u8 b (of_nat (type_value (WasmImport.result_type i))) \<bind>
          (\<lambda>b. out_arg_types b (args i) [0..<length (args i)] \<bind>
          (\<lambda>b. out_u32 b 0 \<bind> (\<lambda>b. out_u32 b 0 \<bind> (\<lambda>b. out_u32 b 0 \<bind>
          (\<lambda>b. out_u16 b 0 \<bind> (\<lambda>b. out_u16 b 0 \<bind> (\<lambda>b. out_u16 b 0 \<bind>
          (\<lambda>b. out_u16 b 0 \<bind> (\<lambda>b. out_u8 b 0 \<bind> (\<lambda>b. out_u8 b 1 \<bind>
          (\<lambda>b. out_import_headers b imps))))))))))))) (\<lambda>b. b)
        ([of_nat (length (args i))] @ [of_nat (type_value (WasmImport.result_type i))] @
         arg_type_bytes (take (length (args i)) (args i)) @
         le_bytes 4 (unat (0 :: u32)) @ le_bytes 4 (unat (0 :: u32)) @ le_bytes 4 (unat (0 :: u32)) @
         le_bytes 2 (unat (0 :: u16)) @ le_bytes 2 (unat (0 :: u16)) @
         le_bytes 2 (unat (0 :: u16)) @ le_bytes 2 (unat (0 :: u16)) @
         [0] @ [1] @ concat (map import_header_bytes imps))"
    by (intro emits_bind emits_u32 emits_u16 emits_u8 a Cons.IH)
  moreover have "[of_nat (length (args i))] @ [of_nat (type_value (WasmImport.result_type i))] @
         arg_type_bytes (take (length (args i)) (args i)) @
         le_bytes 4 (unat (0 :: u32)) @ le_bytes 4 (unat (0 :: u32)) @ le_bytes 4 (unat (0 :: u32)) @
         le_bytes 2 (unat (0 :: u16)) @ le_bytes 2 (unat (0 :: u16)) @
         le_bytes 2 (unat (0 :: u16)) @ le_bytes 2 (unat (0 :: u16)) @
         [0] @ [1] @ concat (map import_header_bytes imps) =
         concat (map import_header_bytes (i # imps))"
    by (simp add: import_header_bytes_def)
  ultimately have "emits (\<lambda>b. out_u8 b (of_nat (length (args i))) \<bind>
          (\<lambda>b. out_u8 b (of_nat (type_value (WasmImport.result_type i))) \<bind>
          (\<lambda>b. out_arg_types b (args i) [0..<length (args i)] \<bind>
          (\<lambda>b. out_u32 b 0 \<bind> (\<lambda>b. out_u32 b 0 \<bind> (\<lambda>b. out_u32 b 0 \<bind>
          (\<lambda>b. out_u16 b 0 \<bind> (\<lambda>b. out_u16 b 0 \<bind> (\<lambda>b. out_u16 b 0 \<bind>
          (\<lambda>b. out_u16 b 0 \<bind> (\<lambda>b. out_u8 b 0 \<bind> (\<lambda>b. out_u8 b 1 \<bind>
          (\<lambda>b. out_import_headers b imps))))))))))))) (\<lambda>b. b)
        (concat (map import_header_bytes (i # imps)))"
    by (rule emits_cong)
  then show ?case by simp
qed

lemma emits_function_headers:
  "list_all function_ok fs \<Longrightarrow>
   emits (\<lambda>b. out_function_headers b fs) (\<lambda>b. b) (concat (map function_header_bytes fs))"
proof (induction fs)
  case Nil
  show ?case using emits_return[of "\<lambda>b. b"] by simp
next
  case (Cons f fs)
  then have IH: "emits (\<lambda>b. out_function_headers b fs) (\<lambda>b. b) (concat (map function_header_bytes fs))"
    by simp
  from Cons.prems have "num_args f \<le> length (locals f)" by (simp add: function_ok_def)
  then have a: "emits (\<lambda>b. out_arg_types b (locals f) [0..<num_args f]) (\<lambda>b. b)
             (arg_type_bytes (take (num_args f) (locals f)))"
    by (rule emits_arg_types_upto)
  have "emits (\<lambda>b. out_u8 b (of_nat (num_args f)) \<bind>
          (\<lambda>b. out_u8 b (of_nat (type_value (WasmFunction.result_type f))) \<bind>
          (\<lambda>b. out_arg_types b (locals f) [0..<num_args f] \<bind>
          (\<lambda>b. out_u32 b 0 \<bind> (\<lambda>b. out_u32 b 0 \<bind> (\<lambda>b. out_u32 b 0 \<bind>
          (\<lambda>b. out_u16 b (of_nat (count_locals f WASM_TYPE_I32)) \<bind>
          (\<lambda>b. out_u16 b (of_nat (count_locals f WASM_TYPE_I64)) \<bind>
          (\<lambda>b. out_u16 b (of_nat (count_locals f WASM_TYPE_F32)) \<bind>
          (\<lambda>b. out_u16 b (of_nat (count_locals f WASM_TYPE_F64)) \<bind>
          (\<lambda>b. out_u8 b 0 \<bind> (\<lambda>b. out_u8 b 0 \<bind>
          (\<lambda>b. out_function_headers b fs))))))))))))) (\<lambda>b. b)
        ([of_nat (num_args f)] @ [of_nat (type_value (WasmFunction.result_type f))] @
         arg_type_bytes (take (num_args f) (locals f)) @
         le_bytes 4 (unat (0 :: u32)) @ le_bytes 4 (unat (0 :: u32)) @ le_bytes 4 (unat (0 :: u32)) @
         le_bytes 2 (unat (of_nat (count_locals f WASM_TYPE_I32) :: u16)) @
         le_bytes 2 (unat (of_nat (count_locals f WASM_TYPE_I64) :: u16)) @
         le_bytes 2 (unat (of_nat (count_locals f WASM_TYPE_F32) :: u16)) @
         le_bytes 2 (unat (of_nat (count_locals f WASM_TYPE_F64) :: u16)) @
         [0] @ [0] @ concat (map function_header_bytes fs))"
    by (intro emits_bind emits_u32 emits_u16 emits_u8 a IH)
  moreover have "[of_nat (num_args f)] @ [of_nat (type_value (WasmFunction.result_type f))] @
         arg_type_bytes (take (num_args f) (locals f)) @
         le_bytes 4 (unat (0 :: u32)) @ le_bytes 4 (unat (0 :: u32)) @ le_bytes 4 (unat (0 :: u32)) @
         le_bytes 2 (unat (of_nat (count_locals f WASM_TYPE_I32) :: u16)) @
         le_bytes 2 (unat (of_nat (count_locals f WASM_TYPE_I64) :: u16)) @
         le_bytes 2 (unat (of_nat (count_locals f WASM_TYPE_F32) :: u16)) @
         le_bytes 2 (unat (of_nat (count_locals f WASM_TYPE_F64) :: u16)) @
         [0] @ [0] @ concat (map function_header_bytes fs) =
         concat (map function_header_bytes (f # fs))"
    by (simp only: unat_of_nat_u16 function_header_bytes_def list.map concat.simps append_assoc unat_u32_0)
  ultimately have "emits (\<lambda>b. out_u8 b (of_nat (num_args f)) \<bind>
          (\<lambda>b. out_u8 b (of_nat (type_value (WasmFunction.result_type f))) \<bind>
          (\<lambda>b. out_arg_types b (locals f) [0..<num_args f] \<bind>
          (\<lambda>b. out_u32 b 0 \<bind> (\<lambda>b. out_u32 b 0 \<bind> (\<lambda>b. out_u32 b 0 \<bind>
          (\<lambda>b. out_u16 b (of_nat (count_locals f WASM_TYPE_I32)) \<bind>
          (\<lambda>b. out_u16 b (of_nat (count_locals f WASM_TYPE_I64)) \<bind>
          (\<lambda>b. out_u16 b (of_nat (count_locals f WASM_TYPE_F32)) \<bind>
          (\<lambda>b. out_u16 b (of_nat (count_locals f WASM_TYPE_F64)) \<bind>
          (\<lambda>b. out_u8 b 0 \<bind> (\<lambda>b. out_u8 b 0 \<bind>
          (\<lambda>b. out_function_headers b fs))))))))))))) (\<lambda>b. b)
        (concat (map function_header_bytes (f # fs)))"
    by (rule emits_cong)
  then show ?case by (simp add: Let_def)
qed

lemma emits_segment_headers:
  "emits (\<lambda>b. out_segment_headers b ss) (\<lambda>b. b) (concat (map segment_header_bytes ss))"
proof (induction ss)
  case Nil
  show ?case using emits_return[of "\<lambda>b. b"] by simp
next
  case (Cons s ss)
  have "emits (\<lambda>b. out_u32 b (address s) \<bind> (\<lambda>b. out_u32 b 0 \<bind>
          (\<lambda>b. out_u32 b (of_nat (size_seg s)) \<bind> (\<lambda>b. out_u8 b 1 \<bind>
          (\<lambda>b. out_segment_headers b ss))))) (\<lambda>b. b)
        (le_bytes 4 (unat (address s)) @ le_bytes 4 (unat (0 :: u32)) @
         le_bytes 4 (unat (of_nat (size_seg s) :: u32)) @ [1] @
         concat (map segment_header_bytes ss))"
    by (intro emits_bind emits_u32 emits_u8 Cons.IH)
  moreover have "le_bytes 4 (unat (address s)) @ le_bytes 4 (unat (0 :: u32)) @
         le_bytes 4 (unat (of_nat (size_seg s) :: u32)) @ [1] @
         concat (map segment_header_bytes ss) = concat (map segment_header_bytes (s # ss))"
    by (simp only: unat_of_nat_u32_mod segment_header_bytes_def list.map concat.simps append_assoc unat_u32_0)
  ultimately have "emits (\<lambda>b. out_u32 b (address s) \<bind> (\<lambda>b. out_u32 b 0 \<bind>
          (\<lambda>b. out_u32 b (of_nat (size_seg s)) \<bind> (\<lambda>b. out_u8 b 1 \<bind>
          (\<lambda>b. out_segment_headers b ss))))) (\<lambda>b. b)
        (concat (map segment_header_bytes (s # ss)))"
    by (rule emits_cong)
  then show ?case by simp
qed

lemma log_two_u32_Some: "x \<noteq> 1 \<Longrightarrow> \<exists>l. log_two_u32 x = Some l"
  by (simp add: log_two_u32_def builtin_clz_def)

lemma emits_module_header:
  assumes "module_ok m"
  shows "emits (\<lambda>b. out_module_header (ctx\<lparr>buf := b\<rparr>) m) (\<lambda>b. ctx\<lparr>buf := b\<rparr>) (header_bytes m)"
proof -
  from assms have "max_memory_size m \<noteq> 1" and fs: "list_all function_ok (functions_m m)"
    by (simp_all add: module_ok_def)
  then obtain l where l: "log_two_u32 (max_memory_size m) = Some l"
    using log_two_u32_Some by blast
  let ?w = "\<lambda>b. ctx\<lparr>buf := b\<rparr>"
  have "emits (\<lambda>b. out_u8 b (ucast l) \<bind>
          (\<lambda>b. out_u8 b DEFAULT_MEMORY_EXPORT \<bind>
          (\<lambda>b. out_u16 b (of_nat (length (globals m))) \<bind>
          (\<lambda>b. out_u16 b (of_nat (length (imports_m m) + length (functions_m m))) \<bind>
          (\<lambda>b. out_u16 b (of_nat (length (segments m))) \<bind>
          (\<lambda>b. out_global_headers b (globals m) \<bind>
          (\<lambda>b. out_import_headers b (imports_m m) \<bind>
          (\<lambda>b. out_function_headers b (functions_m m) \<bind>
          (\<lambda>b. out_segment_headers b (segments m) \<bind>
          (\<lambda>b. Some (?w b))))))))))) ?w
        ([ucast l] @ [DEFAULT_MEMORY_EXPORT] @
         le_bytes 2 (unat (of_nat (length (globals m)) :: u16)) @
         le_bytes 2 (unat (of_nat (length (imports_m m) + length (functions_m m)) :: u16)) @
         le_bytes 2 (unat (of_nat (length (segments m)) :: u16)) @
         concat (map global_header_bytes (globals m)) @
         concat (map import_header_bytes (imports_m m)) @
         concat (map function_header_bytes (functions_m m)) @
         concat (map segment_header_bytes (segments m)) @ [])"
    by (intro emits_bind emits_u16 emits_u8 emits_global_headers emits_import_headers
          emits_function_headers[OF fs] emits_segment_headers emits_return)
  moreover have "[ucast l] @ [DEFAULT_MEMORY_EXPORT] @
         le_bytes 2 (unat (of_nat (length (globals m)) :: u16)) @
         le_bytes 2 (unat (of_nat (length (imports_m m) + length (functions_m m)) :: u16)) @
         le_bytes 2 (unat (of_nat (length (segments m)) :: u16)) @
         concat (map global_header_bytes (globals m)) @
         concat (map import_header_bytes (imports_m m)) @
         concat (map function_header_bytes (functions_m m)) @
         concat (map segment_header_bytes (segments m)) @ [] = header_bytes m"
    by (simp only: header_bytes_def preamble_bytes_def l option.sel unat_of_nat_u16 append_assoc append_Nil2)
  ultimately have "emits (\<lambda>b. out_u8 b (ucast l) \<bind>
          (\<lambda>b. out_u8 b DEFAULT_MEMORY_EXPORT \<bind>
          (\<lambda>b. out_u16 b (of_nat (length (globals m))) \<bind>
          (\<lambda>b. out_u16 b (of_nat (length (imports_m m) + length (functions_m m))) \<bind>
          (\<lambda>b. out_u16 b (of_nat (length (segments m))) \<bind>
          (\<lambda>b. out_global_headers b (globals m) \<bind>
          (\<lambda>b. out_import_headers b (imports_m m) \<bind>
          (\<lambda>b. out_function_headers b (functions_m m) \<bind>
          (\<lambda>b. out_segment_headers b (segments m) \<bind>
          (\<lambda>b. Some (?w b))))))))))) ?w (header_bytes m)"
    by (rule emits_cong)
  then show ?thesis by (simp add: out_module_header_def l Let_def)
qed

lemma plan_function_headers_nth:
  "length (fst (plan_function_headers offset fs)) = length fs \<and>
   (\<forall>i<length fs. fst (plan_function_headers offset fs) ! i =
       offset + of_nat (\<Sum>f\<leftarrow>take i fs. 24 + num_args f)) \<and>
   snd (plan_function_headers offset fs) = offset + of_nat (\<Sum>f\<leftarrow>fs. 24 + num_args f)"
proof (induction fs arbitrary: offset)
  case Nil
  show ?case by simp
next
  case (Cons f fs)
  let ?o = "offset + of_nat (FUNC_HEADER_SIZE (num_args f))"
  note IH = Cons.IH[of ?o]
  have p: "plan_function_headers offset (f # fs) =
           (offset # fst (plan_function_headers ?o fs), snd (plan_function_headers ?o fs))"
    by (simp add: case_prod_beta)
  have "fst (plan_function_headers offset (f # fs)) ! i =
          offset + of_nat (\<Sum>f\<leftarrow>take i (f # fs). 24 + num_args f)"
    if "i < length (f # fs)" for i
  proof (cases i)
    case 0
    then show ?thesis unfolding p by simp
  next
    case (Suc j)
    with that have "j < length fs" by simp
    with IH have "fst (plan_function_headers ?o fs) ! j =
        ?o + of_nat (\<Sum>f\<leftarrow>take j fs. 24 + num_args f)" by blast
    then show ?thesis unfolding p by (simp add: Suc FUNC_HEADER_SIZE_def)
  qed
  moreover have "length (fst (plan_function_headers offset (f # fs))) = length (f # fs)"
    unfolding p using IH by simp
  moreover have "snd (plan_function_headers offset (f # fs)) =
      offset + of_nat (\<Sum>f\<leftarrow>f # fs. 24 + num_args f)"
    unfolding p using IH by (simp add: FUNC_HEADER_SIZE_def)
  ultimately show ?case by blast
qed

lemma plan_segment_headers_nth:
  "length (fst (plan_segment_headers offset ss)) = length ss \<and>
   (\<forall>i<length ss. fst (plan_segment_headers offset ss) ! i = offset + of_nat (13 * i)) \<and>
   snd (plan_segment_headers offset ss) = offset + of_nat (13 * length ss)"
proof (induction ss arbitrary: offset)
  case Nil
  show ?case by simp
next
  case (Cons s ss)
  let ?o = "offset + of_nat SEGMENT_HEADER_SIZE"
  note IH = Cons.IH[of ?o]
  have p: "plan_segment_headers offset (s # ss) =
           (offset # fst (plan_segment_headers ?o ss), snd (plan_segment_headers ?o ss))"
    by (simp add: case_prod_beta)
  have "fst (plan_segment_headers offset (s # ss)) ! i = offset + of_nat (13 * i)"
    if "i < length (s # ss)" for i
  proof (cases i)
    case 0
    then show ?thesis unfolding p by simp
  next
    case (Suc j)
    with that have "j < length ss" by simp
    with IH have "fst (plan_segment_headers ?o ss) ! j = ?o + of_nat (13 * j)" by blast
    then show ?thesis unfolding p by (simp add: Suc SEGMENT_HEADER_SIZE_def)
  qed
  moreover have "length (fst (plan_segment_headers offset (s # ss))) = length (s # ss)"
    unfolding p using IH by simp
  moreover have "snd (plan_segment_headers offset (s # ss)) = offset + of_nat (13 * length (s # ss))"
    unfolding p using IH by (simp add: SEGMENT_HEADER_SIZE_def)
  ultimately show ?case by blast
qed

lemma skip_import_headers_sum:
  "skip_import_headers offset imps = offset + of_nat (\<Sum>import\<leftarrow>imps. 24 + length (args import))"
  by (induction imps arbitrary: offset) (simp_all add: FUNC_HEADER_SIZE_def)

lemma planned_function_table_nth:
  "length (planned_function_table m) = length (functions_m m)"
  "i < length (functions_m m) \<Longrightarrow> planned_function_table m ! i = of_nat (function_header_offset m i)"
  using plan_function_headers_nth[of
      "skip_import_headers (of_nat (FUNC_HEADERS_OFFSET (length (globals m)))) (imports_m m)"
      "functions_m m"]
  by (simp_all add: planned_function_table_def skip_import_headers_sum function_header_offset_def
        import_headers_size_def FUNC_HEADERS_OFFSET_def GLOBAL_HEADERS_OFFSET_def
        GLOBAL_HEADER_SIZE_def)

lemma planned_segment_table_nth:
  "length (planned_segment_table m) = length (segments m)"
  "s < length (segments m) \<Longrightarrow> planned_segment_table m ! s = of_nat (segment_header_offset m s)"
  using plan_segment_headers_nth[of
      "snd (plan_function_headers
              (skip_import_headers (of_nat (FUNC_HEADERS_OFFSET (length (globals m)))) (imports_m m))
              (functions_m m))" "segments m"]
    plan_function_headers_nth[of
      "skip_import_headers (of_nat (FUNC_HEADERS_OFFSET (length (globals m)))) (imports_m m)"
      "functions_m m"]
  by (simp_all add: planned_segment_table_def skip_import_headers_sum function_header_offset_def
        segment_header_offset_def import_headers_size_def FUNC_HEADERS_OFFSET_def
        GLOBAL_HEADERS_OFFSET_def GLOBAL_HEADER_SIZE_def)

lemma before_module_total:
  assumes "module_ok m"
  shows "\<exists>b'. before_module fresh m ctx =
           Some (ctx\<lparr>function_header_offsets := planned_function_table m,
                     segment_header_offsets := planned_segment_table m,
                     module := Some m, buf := b'\<rparr>) \<and>
           appended (init_output_buffer fresh (buf ctx) INITIAL_OUTPUT_BUFFER_CAPACITY)
             (header_bytes m) b'"
proof -
  let ?b0 = "init_output_buffer fresh (buf ctx) INITIAL_OUTPUT_BUFFER_CAPACITY"
  let ?ctx = "ctx\<lparr>function_header_offsets := planned_function_table m,
                  segment_header_offsets := planned_segment_table m, module := Some m\<rparr>"
  have c: "0 < capacity ?b0"
    by (simp add: init_output_buffer_def INITIAL_OUTPUT_BUFFER_CAPACITY_def)
  from emitsD[OF emits_module_header[OF assms, of ?ctx] c] obtain b' where
    b': "out_module_header (?ctx\<lparr>buf := ?b0\<rparr>) m = Some (?ctx\<lparr>buf := b'\<rparr>)"
      "appended ?b0 (header_bytes m) b'"
    by blast
  have "before_module fresh m ctx = out_module_header (?ctx\<lparr>buf := ?b0\<rparr>) m"
    by (simp add: before_module_def planned_function_table_def planned_segment_table_def
          Let_def case_prod_beta)
  with b' show ?thesis by (intro exI[of _ b']) simp
qed

lemma sum_take_le: "(\<Sum>x\<leftarrow>take i xs. (f x :: nat)) \<le> (\<Sum>x\<leftarrow>xs. f x)"
proof -
  have "(\<Sum>x\<leftarrow>xs. f x) = (\<Sum>x\<leftarrow>take i xs @ drop i xs. f x)" by simp
  also have "\<dots> = (\<Sum>x\<leftarrow>take i xs. f x) + (\<Sum>x\<leftarrow>drop i xs. f x)" by (simp only: map_append sum_list_append)
  finally show ?thesis by simp
qed

lemma function_header_offset_le: "function_header_offset m i \<le> headers_size m"
  using sum_take_le[of "\<lambda>f. 24 + num_args f" i "functions_m m"]
  by (simp add: function_header_offset_def headers_size_def segment_header_offset_def)

lemma segment_header_offset_le:
  "s \<le> length (segments m) \<Longrightarrow> segment_header_offset m s \<le> headers_size m"
  by (simp add: headers_size_def segment_header_offset_def)

lemma list2_eqI: "length xs = 2 \<Longrightarrow> xs ! 0 = a \<Longrightarrow> xs ! 1 = b \<Longrightarrow> xs = [a, b]"
  by (cases xs; cases "tl xs") auto

lemma sample_module2_ok: "module_ok sample_module2"
  by (simp add: module_ok_def sample_module2_def function_ok_def)

lemma sample_module2_size: "headers_size sample_module2 = 115"
  by (simp add: headers_size_def segment_header_offset_def function_header_offset_def
        import_headers_size_def sample_module2_def)

text \<open>
  Claim C1. \<^verbatim>\<open>before_module\<close> succeeds and leaves tables with one entry per declared
  function and per segment: the entry of function \<open>i\<close> is
  \<open>8 + 6 G + \<Sum>\<^sub>j (24 + a\<^sub>j) + \<Sum>\<^bsub>k<i\<^esub> (24 + b\<^sub>k)\<close> and the entry of segment \<open>s\<close> lies \<open>13 s\<close> bytes
  after the end of the last function header, as 32-bit values; when the headers end below
  \<open>2^32\<close> these are the numbers themselves. The tables are computed from the shape of the
  module alone, and no expression callback changes them.
\<close>

theorem header_offset_tables:
  assumes "module_ok m"
  shows "\<exists>ctx'. before_module fresh m ctx = Some ctx' \<and>
     length (function_header_offsets ctx') = length (functions_m m) \<and>
     length (segment_header_offsets ctx') = length (segments m) \<and>
     (\<forall>i<length (functions_m m). function_header_offsets ctx' ! i =
        of_nat (8 + 6 * length (globals m) +
                (\<Sum>import\<leftarrow>imports_m m. 24 + length (args import)) +
                (\<Sum>function\<leftarrow>take i (functions_m m). 24 + num_args function))) \<and>
     (\<forall>s<length (segments m). segment_header_offsets ctx' ! s =
        of_nat (8 + 6 * length (globals m) +
                (\<Sum>import\<leftarrow>imports_m m. 24 + length (args import)) +
                (\<Sum>function\<leftarrow>functions_m m. 24 + num_args function) + 13 * s)) \<and>
     (headers_size m < 2 ^ 32 \<longrightarrow>
        (\<forall>i<length (functions_m m).
           unat (function_header_offsets ctx' ! i) = function_header_offset m i) \<and>
        (\<forall>s<length (segments m).
           unat (segment_header_offsets ctx' ! s) = segment_header_offset m s)) \<and>
     (\<forall>ops es ctx2. callbacks ops es ctx' = Some ctx2 \<longrightarrow>
        function_header_offsets ctx2 = function_header_offsets ctx' \<and>
        segment_header_offsets ctx2 = segment_header_offsets ctx')"
proof -
  let ?b0 = "init_output_buffer fresh (buf ctx) INITIAL_OUTPUT_BUFFER_CAPACITY"
  from before_module_total[OF assms, of fresh ctx] obtain b' where
    r: "before_module fresh m ctx =
          Some (ctx\<lparr>function_header_offsets := planned_function_table m,
                    segment_header_offsets := planned_segment_table m,
                    module := Some m, buf := b'\<rparr>)"
    and a: "appended ?b0 (header_bytes m) b'"
    by blast
  let ?ctx' = "ctx\<lparr>function_header_offsets := planned_function_table m,
                    segment_header_offsets := planned_segment_table m,
                    module := Some m, buf := b'\<rparr>"
  have c: "0 < capacity (buf ?ctx')"
    using a by (auto dest!: appended_capacity
        simp: init_output_buffer_def INITIAL_OUTPUT_BUFFER_CAPACITY_def)
  have f: "function_header_offsets ?ctx' ! i =
        of_nat (8 + 6 * length (globals m) +
                (\<Sum>import\<leftarrow>imports_m m. 24 + length (args import)) +
                (\<Sum>function\<leftarrow>take i (functions_m m). 24 + num_args function))"
    if "i < length (functions_m m)" for i
    using planned_function_table_nth(2)[OF that]
    by (simp add: function_header_offset_def import_headers_size_def)
  have s: "segment_header_offsets ?ctx' ! s =
        of_nat (8 + 6 * length (globals m) +
                (\<Sum>import\<leftarrow>imports_m m. 24 + length (args import)) +
                (\<Sum>function\<leftarrow>functions_m m. 24 + num_args function) + 13 * s)"
    if "s < length (segments m)" for s
    using planned_segment_table_nth(2)[OF that]
    by (simp add: segment_header_offset_def function_header_offset_def import_headers_size_def)
  have u: "(\<forall>i<length (functions_m m).
           unat (function_header_offsets ?ctx' ! i) = function_header_offset m i) \<and>
        (\<forall>s<length (segments m).
           unat (segment_header_offsets ?ctx' ! s) = segment_header_offset m s)"
    if h: "headers_size m < 2 ^ 32"
  proof (intro conjI allI impI)
    fix i assume i: "i < length (functions_m m)"
    from function_header_offset_le[of m i] h have "function_header_offset m i < 2 ^ 32" by simp
    then show "unat (function_header_offsets ?ctx' ! i) = function_header_offset m i"
      using planned_function_table_nth(2)[OF i] by (simp add: unat_of_nat_u32)
  next
    fix s assume s: "s < length (segments m)"
    with segment_header_offset_le[of s m] h have "segment_header_offset m s < 2 ^ 32" by simp
    then show "unat (segment_header_offsets ?ctx' ! s) = segment_header_offset m s"
      using planned_segment_table_nth(2)[OF s] by (simp add: unat_of_nat_u32)
  qed
  have k: "function_header_offsets ctx2 = function_header_offsets ?ctx' \<and>
        segment_header_offsets ctx2 = segment_header_offsets ?ctx'"
    if "callbacks ops es ?ctx' = Some ctx2" for ops es ctx2
    using callbacks_extends[OF that c] by auto
  show ?thesis
    unfolding r
    by (intro exI[of _ ?ctx'] conjI allI impI)
       (use f s u k in \<open>simp_all add: planned_function_table_nth(1) planned_segment_table_nth(1)\<close>)
qed

theorem header_offset_tables_witness:
  "module_ok sample_module2 \<and> headers_size sample_module2 < 2 ^ 32 \<and>
   (\<exists>ctx' ctx2. before_module (\<lambda>i. 0) sample_module2 sample_ctx = Some ctx' \<and>
      function_header_offsets ctx' = [39, 63] \<and>
      segment_header_offsets ctx' = [89, 102] \<and>
      map unat (function_header_offsets ctx') = [39, 63] \<and>
      callbacks sample_opcodes [After_nop] ctx' = Some ctx2 \<and>
      function_header_offsets ctx2 = [39, 63] \<and>
      segment_header_offsets ctx2 = [89, 102])"
proof -
  note ok = sample_module2_ok
  have sz: "headers_size sample_module2 < 2 ^ 32" by (simp add: sample_module2_size)
  from header_offset_tables[OF ok, of "\<lambda>i. 0" sample_ctx] obtain ctx' where
    r: "before_module (\<lambda>i. 0) sample_module2 sample_ctx = Some ctx'"
    and lf: "length (function_header_offsets ctx') = length (functions_m sample_module2)"
    and ls: "length (segment_header_offsets ctx') = length (segments sample_module2)"
    and f: "\<forall>i<length (functions_m sample_module2). function_header_offsets ctx' ! i =
        of_nat (8 + 6 * length (globals sample_module2) +
                (\<Sum>import\<leftarrow>imports_m sample_module2. 24 + length (args import)) +
                (\<Sum>function\<leftarrow>take i (functions_m sample_module2). 24 + num_args function))"
    and s: "\<forall>s<length (segments sample_module2). segment_header_offsets ctx' ! s =
        of_nat (8 + 6 * length (globals sample_module2) +
                (\<Sum>import\<leftarrow>imports_m sample_module2. 24 + length (args import)) +
                (\<Sum>function\<leftarrow>functions_m sample_module2. 24 + num_args function) + 13 * s)"
    and k: "\<forall>ops es ctx2. callbacks ops es ctx' = Some ctx2 \<longrightarrow>
        function_header_offsets ctx2 = function_header_offsets ctx' \<and>
        segment_header_offsets ctx2 = segment_header_offsets ctx'"
    by (elim exE conjE)
  have ft: "function_header_offsets ctx' = [39, 63]"
  proof (rule list2_eqI)
    show "length (function_header_offsets ctx') = 2" using lf by (simp add: sample_module2_def)
    show "function_header_offsets ctx' ! 0 = 39"
      using f[rule_format, of 0] by (simp add: sample_module2_def)
    show "function_header_offsets ctx' ! 1 = 63"
      using f[rule_format, of 1] by (simp add: sample_module2_def)
  qed
  have st: "segment_header_offsets ctx' = [89, 102]"
  proof (rule list2_eqI)
    show "length (segment_header_offsets ctx') = 2" using ls by (simp add: sample_module2_def)
    show "segment_header_offsets ctx' ! 0 = 89"
      using s[rule_format, of 0] by (simp add: sample_module2_def)
    show "segment_header_offsets ctx' ! 1 = 102"
      using s[rule_format, of 1] by (simp add: sample_module2_def)
  qed
  from before_module_total[OF ok, of "\<lambda>i. 0" sample_ctx] r have "0 < capacity (buf ctx')"
    by (auto dest!: appended_capacity simp: init_output_buffer_def INITIAL_OUTPUT_BUFFER_CAPACITY_def)
  from callbacks_nop[OF this, of sample_opcodes] obtain b2 where
    c: "callbacks sample_opcodes [After_nop] ctx' = Some (ctx'\<lparr>buf := b2\<rparr>)" by blast
  from k[rule_format, OF c] ft st
  have "function_header_offsets (ctx'\<lparr>buf := b2\<rparr>) = [39, 63] \<and>
        segment_header_offsets (ctx'\<lparr>buf := b2\<rparr>) = [89, 102]" by simp
  with r ft st c have "\<exists>ctx' ctx2. before_module (\<lambda>i. 0) sample_module2 sample_ctx = Some ctx' \<and>
      function_header_offsets ctx' = [39, 63] \<and>
      segment_header_offsets ctx' = [89, 102] \<and>
      map unat (function_header_offsets ctx') = [39, 63] \<and>
      callbacks sample_opcodes [After_nop] ctx' = Some ctx2 \<and>
      function_header_offsets ctx2 = [39, 63] \<and>
      segment_header_offsets ctx2 = [89, 102]"
    by (intro exI[of _ ctx'] exI[of _ "ctx'\<lparr>buf := b2\<rparr>"]) simp
  with ok sz show ?thesis by (intro conjI)
qed

subsection \<open>The footer\<close>

lemma patch_cells_Cons: "patch_cells (item # items) = item_cells item \<union> patch_cells items"
  by (simp add: patch_cells_def)

lemma patch_cells_Nil [simp]: "patch_cells [] = {}"
  by (simp add: patch_cells_def)

lemma patch_cells_append: "patch_cells (xs @ ys) = patch_cells xs \<union> patch_cells ys"
  by (auto simp: patch_cells_def)

lemma tail_bytes_Cons: "tail_bytes (item # items) = snd item @ tail_bytes items"
  by (simp add: tail_bytes_def)

lemma tail_bytes_Nil [simp]: "tail_bytes [] = []"
  by (simp add: tail_bytes_def)

lemma tail_bytes_append: "tail_bytes (xs @ ys) = tail_bytes xs @ tail_bytes ys"
  by (simp add: tail_bytes_def)

lemma fields_ok_cells: "fields_ok H items \<Longrightarrow> patch_cells items \<subseteq> {0..<H}"
  by (induction items) (auto simp: patch_cells_Cons)

lemma memcpy_below: "x < offset \<Longrightarrow> memcpy mem offset bs x = mem x"
  by (simp add: memcpy_def)

lemma tail_mem_frame:
  "fields_ok H items \<Longrightarrow> H \<le> n \<Longrightarrow> x < n \<Longrightarrow> x \<notin> patch_cells items \<Longrightarrow>
   tail_mem mem n items x = mem x"
proof (induction items arbitrary: mem n)
  case Nil
  show ?case by simp
next
  case (Cons item items)
  obtain pos bs where item: "item = (pos, bs)" by (cases item)
  let ?mem1 = "memcpy (case pos of None \<Rightarrow> mem | Some p \<Rightarrow> memcpy mem p (le_bytes 4 (n mod 2 ^ 32))) n bs"
  from Cons.prems have ok: "fields_ok H items" and x: "x \<notin> patch_cells items"
    and xi: "x \<notin> item_cells item"
    by (simp_all add: patch_cells_Cons)
  have "tail_mem mem n (item # items) x = tail_mem ?mem1 (n + length bs) items x"
    by (simp add: item)
  also have "\<dots> = ?mem1 x"
    using Cons.prems(2,3) by (intro Cons.IH[OF ok _ _ x]) simp_all
  also have "\<dots> = (case pos of None \<Rightarrow> mem | Some p \<Rightarrow> memcpy mem p (le_bytes 4 (n mod 2 ^ 32))) x"
    using Cons.prems(3) by (rule memcpy_below)
  also have "\<dots> = mem x"
    using xi by (cases pos) (auto simp: item memcpy_outside)
  finally show ?case .
qed

lemma item_start_0 [simp]: "item_start n items 0 = n"
  by (simp add: item_start_def)

lemma item_start_Suc:
  "item_start n (item # items) (Suc k) = item_start (n + length (snd item)) items k"
  by (simp add: item_start_def tail_bytes_Cons)

lemma item_start_le: "k \<le> length items \<Longrightarrow> item_start n items k \<le> n + length (tail_bytes items)"
proof -
  assume "k \<le> length items"
  have "tail_bytes items = tail_bytes (take k items @ drop k items)" by simp
  also have "\<dots> = tail_bytes (take k items) @ tail_bytes (drop k items)" by (rule tail_bytes_append)
  finally show ?thesis by (simp add: item_start_def)
qed

lemma tail_mem_items:
  "fields_ok H items \<Longrightarrow> H \<le> n \<Longrightarrow> k < length items \<Longrightarrow>
   map (tail_mem mem n items) [item_start n items k..<item_start n items k + length (snd (items ! k))]
     = snd (items ! k) \<and>
   (\<forall>p. fst (items ! k) = Some p \<longrightarrow>
      map (tail_mem mem n items) [p..<p + 4] = le_bytes 4 (item_start n items k mod 2 ^ 32))"
proof (induction items arbitrary: mem n k)
  case Nil
  then show ?case by simp
next
  case (Cons item items)
  obtain pos bs where item: "item = (pos, bs)" by (cases item)
  let ?mem0 = "case pos of None \<Rightarrow> mem | Some p \<Rightarrow> memcpy mem p (le_bytes 4 (n mod 2 ^ 32))"
  let ?mem1 = "memcpy ?mem0 n bs"
  from Cons.prems have ok: "fields_ok H items" and sub: "item_cells item \<subseteq> {0..<H}"
    and dis: "item_cells item \<inter> patch_cells items = {}"
    by simp_all
  have step: "tail_mem mem n (item # items) = tail_mem ?mem1 (n + length bs) items"
    by (simp add: item)
  have Hn: "H \<le> n + length bs" using Cons.prems(2) by simp
  from fields_ok_cells[OF ok] have cells: "patch_cells items \<subseteq> {0..<H}" .
  show ?case
  proof (cases k)
    case 0
    have a: "map (tail_mem ?mem1 (n + length bs) items) [n..<n + length bs] = bs"
    proof (rule nth_equalityI)
      show "length (map (tail_mem ?mem1 (n + length bs) items) [n..<n + length bs]) = length bs"
        by simp
      fix i assume "i < length (map (tail_mem ?mem1 (n + length bs) items) [n..<n + length bs])"
      then have i: "i < length bs" by simp
      have "n + i \<notin> patch_cells items" using cells Cons.prems(2) by auto
      with i have "tail_mem ?mem1 (n + length bs) items (n + i) = ?mem1 (n + i)"
        by (intro tail_mem_frame[OF ok Hn]) simp_all
      also have "\<dots> = bs ! i" using i by (rule memcpy_inside)
      finally show "map (tail_mem ?mem1 (n + length bs) items) [n..<n + length bs] ! i = bs ! i"
        using i by simp
    qed
    have b: "map (tail_mem ?mem1 (n + length bs) items) [p..<p + 4] = le_bytes 4 (n mod 2 ^ 32)"
      if p: "pos = Some p" for p
    proof (rule nth_equalityI)
      show "length (map (tail_mem ?mem1 (n + length bs) items) [p..<p + 4]) =
            length (le_bytes 4 (n mod 2 ^ 32))" by simp
      fix i assume "i < length (map (tail_mem ?mem1 (n + length bs) items) [p..<p + 4])"
      then have i: "i < 4" by simp
      from sub p item have pH: "p + 4 \<le> H" by auto
      from i have m: "p + i \<in> {p..<p + 4}" by simp
      from dis p item have d: "{p..<p + 4} \<inter> patch_cells items = {}" by simp
      from m d have "p + i \<notin> patch_cells items" by blast
      moreover from pH i Hn have "p + i < n + length bs" by simp
      ultimately have "tail_mem ?mem1 (n + length bs) items (p + i) = ?mem1 (p + i)"
        by (intro tail_mem_frame[OF ok Hn])
      also have "\<dots> = ?mem0 (p + i)" using pH i Cons.prems(2) by (intro memcpy_below) simp
      also have "\<dots> = le_bytes 4 (n mod 2 ^ 32) ! i"
        using i by (simp add: p memcpy_inside)
      finally show "map (tail_mem ?mem1 (n + length bs) items) [p..<p + 4] ! i =
                    le_bytes 4 (n mod 2 ^ 32) ! i"
        using i by simp
    qed
    from a b show ?thesis unfolding step by (simp add: 0 item)
  next
    case (Suc j)
    with Cons.prems(3) have j: "j < length items" by simp
    from Cons.IH[OF ok Hn j, of ?mem1] show ?thesis
      unfolding step by (simp add: Suc item_start_Suc item)
  qed
qed

lemma tail_mem_append:
  "tail_mem mem n (xs @ ys) = tail_mem (tail_mem mem n xs) (n + length (tail_bytes xs)) ys"
  by (induction xs arbitrary: mem n) (auto simp: tail_bytes_Cons add.assoc)

lemma u32_field_offset:
  "a + k < 2 ^ 32 \<Longrightarrow> unat ((of_nat a :: u32) + of_nat k) = a + k"
  by (simp add: unat_word_ariths unat_of_nat)

lemma out_segment_mem:
  assumes "0 < capacity b" and "segment_ok s"
  shows "\<exists>b'. out_segment b s = Some b' \<and> appended b (seg_bytes s) b'"
  using out_segment_total[OF assms] by (simp add: seg_bytes_def)

lemma length_seg_bytes: "segment_ok s \<Longrightarrow> length (seg_bytes s) = size_seg s"
  by (simp add: seg_bytes_def segment_ok_def)

lemma footer_segments_mem:
  assumes "0 < capacity b"
    and "\<forall>k<length segs. i + k < length offsets \<and> offsets ! (i + k) = of_nat (off + 13 * k)"
    and "off + 13 * length segs \<le> H" and "H \<le> size_buf b" and "H < 2 ^ 32"
    and "list_all segment_ok segs"
  shows "\<exists>b'. out_footer_segments b offsets i segs = Some b' \<and>
           start b' = tail_mem (start b) (size_buf b) (segment_items off segs) \<and>
           size_buf b' = size_buf b + length (tail_bytes (segment_items off segs)) \<and>
           capacity b \<le> capacity b'"
  using assms
proof (induction segs arbitrary: b i off)
  case Nil
  show ?case by simp
next
  case (Cons s segs)
  from Cons.prems(2)[rule_format, of 0] have i: "i < length offsets" and o: "offsets ! i = of_nat off"
    by simp_all
  from Cons.prems(3,5) have "off + 4 < 2 ^ 32" by simp
  then have u: "unat (offsets ! i + of_nat SEGMENT_HEADER_DATA_OFFSET) = off + 4"
    unfolding o SEGMENT_HEADER_DATA_OFFSET_def by (rule u32_field_offset)
  from Cons.prems(3,4) have "unat (offsets ! i + of_nat SEGMENT_HEADER_DATA_OFFSET) \<le> size_buf b"
    unfolding u by simp
  from out_u32_at_total[OF this Cons.prems(1), of "of_nat (size_buf b)"] obtain b1 where
    b1: "out_u32_at b (offsets ! i + of_nat SEGMENT_HEADER_DATA_OFFSET) (of_nat (size_buf b)) = Some b1"
    and p1: "patched b (off + 4) (le_bytes 4 (size_buf b mod 2 ^ 32)) b1"
    unfolding u by (auto simp: unat_of_nat)
  from p1 Cons.prems(1) have c1: "0 < capacity b1" by (rule patched_capacity)
  from Cons.prems(6) have sok: "segment_ok s" and rok: "list_all segment_ok segs" by simp_all
  from out_segment_mem[OF c1 sok] obtain b2 where
    b2: "out_segment b1 s = Some b2" and a2: "appended b1 (seg_bytes s) b2" by blast
  from a2 c1 have c2: "0 < capacity b2" by (rule appended_capacity)
  from p1 a2 have s2: "size_buf b2 = size_buf b + length (seg_bytes s)"
    by (simp add: patched_def appended_def)
  from p1 a2 have m2: "start b2 =
      memcpy (memcpy (start b) (off + 4) (le_bytes 4 (size_buf b mod 2 ^ 32))) (size_buf b) (seg_bytes s)"
    by (simp add: patched_def appended_def)
  have tab: "\<forall>k<length segs. Suc i + k < length offsets \<and>
               offsets ! (Suc i + k) = of_nat (off + SEGMENT_HEADER_SIZE + 13 * k)"
  proof (intro allI impI)
    fix k assume "k < length segs"
    then have "Suc k < length (s # segs)" by simp
    from Cons.prems(2)[rule_format, OF this]
    show "Suc i + k < length offsets \<and>
          offsets ! (Suc i + k) = of_nat (off + SEGMENT_HEADER_SIZE + 13 * k)"
      by (simp add: SEGMENT_HEADER_SIZE_def add.commute add.left_commute)
  qed
  from Cons.prems(3) have h1: "off + SEGMENT_HEADER_SIZE + 13 * length segs \<le> H"
    by (simp add: SEGMENT_HEADER_SIZE_def)
  from Cons.prems(4) s2 have h2: "H \<le> size_buf b2" by simp
  from Cons.IH[OF c2 tab h1 h2 Cons.prems(5) rok] obtain b' where
    r: "out_footer_segments b2 offsets (Suc i) segs = Some b'"
    and m: "start b' = tail_mem (start b2) (size_buf b2) (segment_items (off + SEGMENT_HEADER_SIZE) segs)"
    and s: "size_buf b' = size_buf b2 + length (tail_bytes (segment_items (off + SEGMENT_HEADER_SIZE) segs))"
    and c: "capacity b2 \<le> capacity b'"
    by blast
  from p1 a2 c have "capacity b \<le> capacity b'" by (simp add: patched_def appended_def)
  with i b1 b2 r m s show ?case
    by (simp add: m2 s2 tail_bytes_Cons SEGMENT_HEADER_DATA_OFFSET_def)
qed

lemma footer_imports_mem:
  assumes "0 < capacity b"
    and "off + (\<Sum>import\<leftarrow>imps. 24 + length (args import)) \<le> H"
    and "H \<le> size_buf b" and "H < 2 ^ 32"
  shows "\<exists>b'. out_footer_imports b (of_nat off) imps =
             Some (b', of_nat (off + (\<Sum>import\<leftarrow>imps. 24 + length (args import)))) \<and>
           start b' = tail_mem (start b) (size_buf b) (import_items off imps) \<and>
           size_buf b' = size_buf b + length (tail_bytes (import_items off imps)) \<and>
           capacity b \<le> capacity b'"
  using assms
proof (induction imps arbitrary: b off)
  case Nil
  show ?case by simp
next
  case (Cons imp imps)
  let ?f = "FUNC_HEADER_NAME_OFFSET (length (args imp))"
  from Cons.prems(2,4) have "off + ?f < 2 ^ 32"
    by (simp add: FUNC_HEADER_NAME_OFFSET_def FUNC_SIG_SIZE_def)
  then have u: "unat ((of_nat off :: u32) + of_nat ?f) = off + ?f" by (rule u32_field_offset)
  from Cons.prems(2,3) have "unat ((of_nat off :: u32) + of_nat ?f) \<le> size_buf b"
    unfolding u by (simp add: FUNC_HEADER_NAME_OFFSET_def FUNC_SIG_SIZE_def)
  from out_u32_at_total[OF this Cons.prems(1), of "of_nat (size_buf b)"] obtain b1 where
    b1: "out_u32_at b (of_nat off + of_nat ?f) (of_nat (size_buf b)) = Some b1"
    and p1: "patched b (off + ?f) (le_bytes 4 (size_buf b mod 2 ^ 32)) b1"
    unfolding u by (auto simp: unat_of_nat)
  from p1 Cons.prems(1) have c1: "0 < capacity b1" by (rule patched_capacity)
  from out_cstr_total[OF c1, of "func_name imp"] obtain b2 where
    b2: "out_cstr b1 (func_name imp) = Some b2" and a2: "appended b1 (cstr_bytes (func_name imp)) b2"
    by blast
  from a2 c1 have c2: "0 < capacity b2" by (rule appended_capacity)
  from p1 a2 have s2: "size_buf b2 = size_buf b + length (cstr_bytes (func_name imp))"
    by (simp add: patched_def appended_def)
  from p1 a2 have m2: "start b2 =
      memcpy (memcpy (start b) (off + ?f) (le_bytes 4 (size_buf b mod 2 ^ 32))) (size_buf b)
        (cstr_bytes (func_name imp))"
    by (simp add: patched_def appended_def)
  let ?off' = "off + FUNC_HEADER_SIZE (length (args imp))"
  from Cons.prems(2) have h1: "?off' + (\<Sum>import\<leftarrow>imps. 24 + length (args import)) \<le> H"
    by (simp add: FUNC_HEADER_SIZE_def)
  from Cons.prems(3) s2 have h2: "H \<le> size_buf b2" by simp
  from Cons.IH[OF c2 h1 h2 Cons.prems(4)] obtain b' where
    r: "out_footer_imports b2 (of_nat ?off') imps =
          Some (b', of_nat (?off' + (\<Sum>import\<leftarrow>imps. 24 + length (args import))))"
    and m: "start b' = tail_mem (start b2) (size_buf b2) (import_items ?off' imps)"
    and s: "size_buf b' = size_buf b2 + length (tail_bytes (import_items ?off' imps))"
    and c: "capacity b2 \<le> capacity b'"
    by blast
  from p1 a2 c have "capacity b \<le> capacity b'" by (simp add: patched_def appended_def)
  with b1 b2 r m s show ?case
    by (simp add: m2 s2 tail_bytes_Cons FUNC_HEADER_SIZE_def add.assoc)
qed

lemma footer_functions_mem:
  assumes "0 < capacity b"
    and "off + (\<Sum>function\<leftarrow>fs. 24 + num_args function) \<le> H"
    and "H \<le> size_buf b" and "H < 2 ^ 32"
  shows "\<exists>b'. out_footer_functions b (of_nat off) fs =
             Some (b', of_nat (off + (\<Sum>function\<leftarrow>fs. 24 + num_args function))) \<and>
           start b' = tail_mem (start b) (size_buf b) (function_items off fs) \<and>
           size_buf b' = size_buf b + length (tail_bytes (function_items off fs)) \<and>
           capacity b \<le> capacity b'"
  using assms
proof (induction fs arbitrary: b off)
  case Nil
  show ?case by simp
next
  case (Cons f fs)
  let ?f = "FUNC_HEADER_NAME_OFFSET (num_args f)"
  let ?item = "if exported f then (Some (off + ?f), cstr_bytes (exported_name f)) else (None, [])"
  have "\<exists>b2. (if exported f
              then out_u32_at b (of_nat off + of_nat ?f) (of_nat (size_buf b)) \<bind>
                   (\<lambda>b. out_cstr b (exported_name f))
              else Some b) = Some b2 \<and>
          start b2 = tail_mem (start b) (size_buf b) [?item] \<and>
          size_buf b2 = size_buf b + length (snd ?item) \<and>
          capacity b \<le> capacity b2"
  proof (cases "exported f")
    case False
    then show ?thesis by simp
  next
    case True
    from Cons.prems(2,4) have "off + ?f < 2 ^ 32"
      by (simp add: FUNC_HEADER_NAME_OFFSET_def FUNC_SIG_SIZE_def)
    then have u: "unat ((of_nat off :: u32) + of_nat ?f) = off + ?f" by (rule u32_field_offset)
    from Cons.prems(2,3) have "unat ((of_nat off :: u32) + of_nat ?f) \<le> size_buf b"
      unfolding u by (simp add: FUNC_HEADER_NAME_OFFSET_def FUNC_SIG_SIZE_def)
    from out_u32_at_total[OF this Cons.prems(1), of "of_nat (size_buf b)"] obtain b1 where
      b1: "out_u32_at b (of_nat off + of_nat ?f) (of_nat (size_buf b)) = Some b1"
      and p1: "patched b (off + ?f) (le_bytes 4 (size_buf b mod 2 ^ 32)) b1"
      unfolding u by (auto simp: unat_of_nat)
    from p1 Cons.prems(1) have c1: "0 < capacity b1" by (rule patched_capacity)
    from out_cstr_total[OF c1, of "exported_name f"] obtain b2 where
      b2: "out_cstr b1 (exported_name f) = Some b2"
      and a2: "appended b1 (cstr_bytes (exported_name f)) b2"
      by blast
    from p1 a2 b1 b2 True show ?thesis
      by (intro exI[of _ b2]) (simp add: patched_def appended_def)
  qed
  then obtain b2 where
    b2: "(if exported f
              then out_u32_at b (of_nat off + of_nat ?f) (of_nat (size_buf b)) \<bind>
                   (\<lambda>b. out_cstr b (exported_name f))
              else Some b) = Some b2"
    and m2: "start b2 = tail_mem (start b) (size_buf b) [?item]"
    and s2: "size_buf b2 = size_buf b + length (snd ?item)"
    and c2': "capacity b \<le> capacity b2"
    by blast
  from c2' Cons.prems(1) have c2: "0 < capacity b2" by simp
  let ?off' = "off + FUNC_HEADER_SIZE (num_args f)"
  from Cons.prems(2) have h1: "?off' + (\<Sum>function\<leftarrow>fs. 24 + num_args function) \<le> H"
    by (simp add: FUNC_HEADER_SIZE_def)
  from Cons.prems(3) s2 have h2: "H \<le> size_buf b2" by simp
  from Cons.IH[OF c2 h1 h2 Cons.prems(4)] obtain b' where
    r: "out_footer_functions b2 (of_nat ?off') fs =
          Some (b', of_nat (?off' + (\<Sum>function\<leftarrow>fs. 24 + num_args function)))"
    and m: "start b' = tail_mem (start b2) (size_buf b2) (function_items ?off' fs)"
    and s: "size_buf b' = size_buf b2 + length (tail_bytes (function_items ?off' fs))"
    and c: "capacity b2 \<le> capacity b'"
    by blast
  have t: "tail_mem (start b) (size_buf b) (function_items off (f # fs)) =
           tail_mem (tail_mem (start b) (size_buf b) [?item]) (size_buf b + length (snd ?item))
             (function_items ?off' fs)"
    by (cases "exported f") simp_all
  have l: "length (tail_bytes (function_items off (f # fs))) =
           length (snd ?item) + length (tail_bytes (function_items ?off' fs))"
    by (simp add: tail_bytes_Cons)
  from c c2' have "capacity b \<le> capacity b'" by simp
  with b2 r m s show ?case
    unfolding t l by (simp add: m2 s2 FUNC_HEADER_SIZE_def add.assoc)
qed

lemma segment_items_cells:
  "patch_cells (segment_items off segs) \<subseteq> {off..<off + 13 * length segs}"
proof (induction segs arbitrary: off)
  case Nil
  show ?case by simp
next
  case (Cons s segs)
  from Cons.IH[of "off + SEGMENT_HEADER_SIZE"] show ?case
    by (auto simp: patch_cells_Cons SEGMENT_HEADER_SIZE_def SEGMENT_HEADER_DATA_OFFSET_def)
qed

lemma segment_items_ok: "off + 13 * length segs \<le> H \<Longrightarrow> fields_ok H (segment_items off segs)"
proof (induction segs arbitrary: off)
  case Nil
  show ?case by simp
next
  case (Cons s segs)
  from Cons.prems have "off + SEGMENT_HEADER_SIZE + 13 * length segs \<le> H"
    by (simp add: SEGMENT_HEADER_SIZE_def)
  from Cons.IH[OF this] segment_items_cells[of "off + SEGMENT_HEADER_SIZE" segs] Cons.prems
  show ?case
    by (auto simp: SEGMENT_HEADER_SIZE_def SEGMENT_HEADER_DATA_OFFSET_def)
qed

lemma import_items_cells:
  "patch_cells (import_items off imps) \<subseteq>
     {off..<off + (\<Sum>import\<leftarrow>imps. 24 + length (args import))}"
proof (induction imps arbitrary: off)
  case Nil
  show ?case by simp
next
  case (Cons i imps)
  from Cons.IH[of "off + FUNC_HEADER_SIZE (length (args i))"] show ?case
    by (auto simp: patch_cells_Cons FUNC_HEADER_SIZE_def FUNC_HEADER_NAME_OFFSET_def FUNC_SIG_SIZE_def)
qed

lemma import_items_ok:
  "off + (\<Sum>import\<leftarrow>imps. 24 + length (args import)) \<le> H \<Longrightarrow> fields_ok H (import_items off imps)"
proof (induction imps arbitrary: off)
  case Nil
  show ?case by simp
next
  case (Cons i imps)
  from Cons.prems have
    "off + FUNC_HEADER_SIZE (length (args i)) + (\<Sum>import\<leftarrow>imps. 24 + length (args import)) \<le> H"
    by (simp add: FUNC_HEADER_SIZE_def)
  from Cons.IH[OF this] import_items_cells[of "off + FUNC_HEADER_SIZE (length (args i))" imps] Cons.prems
  show ?case
    by (auto simp: FUNC_HEADER_SIZE_def FUNC_HEADER_NAME_OFFSET_def FUNC_SIG_SIZE_def)
qed

lemma function_items_cells:
  "patch_cells (function_items off fs) \<subseteq>
     {off..<off + (\<Sum>function\<leftarrow>fs. 24 + num_args function)}"
proof (induction fs arbitrary: off)
  case Nil
  show ?case by simp
next
  case (Cons f fs)
  from Cons.IH[of "off + FUNC_HEADER_SIZE (num_args f)"] show ?case
    by (auto simp: patch_cells_Cons FUNC_HEADER_SIZE_def FUNC_HEADER_NAME_OFFSET_def FUNC_SIG_SIZE_def)
qed

lemma function_items_ok:
  "off + (\<Sum>function\<leftarrow>fs. 24 + num_args function) \<le> H \<Longrightarrow> fields_ok H (function_items off fs)"
proof (induction fs arbitrary: off)
  case Nil
  show ?case by simp
next
  case (Cons f fs)
  from Cons.prems have
    "off + FUNC_HEADER_SIZE (num_args f) + (\<Sum>function\<leftarrow>fs. 24 + num_args function) \<le> H"
    by (simp add: FUNC_HEADER_SIZE_def)
  from Cons.IH[OF this] function_items_cells[of "off + FUNC_HEADER_SIZE (num_args f)" fs] Cons.prems
  show ?case
    by (auto simp: FUNC_HEADER_SIZE_def FUNC_HEADER_NAME_OFFSET_def FUNC_SIG_SIZE_def)
qed

lemma fields_ok_append:
  "fields_ok H xs \<Longrightarrow> fields_ok H ys \<Longrightarrow> patch_cells xs \<inter> patch_cells ys = {} \<Longrightarrow>
   fields_ok H (xs @ ys)"
  by (induction xs) (auto simp: patch_cells_Cons patch_cells_append)

lemma headers_size_parts:
  "function_header_offset m 0 = FUNC_HEADERS_OFFSET (length (globals m)) + import_headers_size m"
  "segment_header_offset m 0 =
     function_header_offset m 0 + (\<Sum>function\<leftarrow>functions_m m. 24 + num_args function)"
  "headers_size m = segment_header_offset m 0 + 13 * length (segments m)"
  by (simp_all add: function_header_offset_def segment_header_offset_def headers_size_def
        FUNC_HEADERS_OFFSET_def GLOBAL_HEADERS_OFFSET_def GLOBAL_HEADER_SIZE_def)

lemma footer_items_ok: "fields_ok (headers_size m) (footer_items m)"
proof -
  let ?H = "headers_size m"
  let ?S = "segment_items (segment_header_offset m 0) (segments m)"
  let ?I = "import_items (FUNC_HEADERS_OFFSET (length (globals m))) (imports_m m)"
  let ?F = "function_items (function_header_offset m 0) (functions_m m)"
  have s: "fields_ok ?H ?S" by (rule segment_items_ok) (simp add: headers_size_parts)
  have i: "fields_ok ?H ?I"
    by (rule import_items_ok) (simp add: headers_size_parts import_headers_size_def)
  have f: "fields_ok ?H ?F" by (rule function_items_ok) (simp add: headers_size_parts)
  have cs: "patch_cells ?S \<subseteq> {segment_header_offset m 0..<?H}"
    using segment_items_cells[of "segment_header_offset m 0" "segments m"]
    by (simp add: headers_size_parts)
  have ci: "patch_cells ?I \<subseteq> {FUNC_HEADERS_OFFSET (length (globals m))..<function_header_offset m 0}"
    using import_items_cells[of "FUNC_HEADERS_OFFSET (length (globals m))" "imports_m m"]
    by (simp add: headers_size_parts import_headers_size_def)
  have cf: "patch_cells ?F \<subseteq> {function_header_offset m 0..<segment_header_offset m 0}"
    using function_items_cells[of "function_header_offset m 0" "functions_m m"]
    by (simp add: headers_size_parts)
  from ci cf have "patch_cells ?I \<inter> patch_cells ?F = {}" by fastforce
  with i f have IF: "fields_ok ?H (?I @ ?F)" by (rule fields_ok_append)
  have dis: "patch_cells ?S \<inter> patch_cells (?I @ ?F) = {}"
  proof -
    have le: "function_header_offset m 0 \<le> segment_header_offset m 0"
      by (simp add: headers_size_parts)
    have "False" if a: "x \<in> patch_cells ?S" and b: "x \<in> patch_cells ?I \<union> patch_cells ?F" for x
    proof -
      from a cs have "segment_header_offset m 0 \<le> x" by auto
      moreover from b ci cf le have "x < segment_header_offset m 0" by auto
      ultimately show False by simp
    qed
    then show ?thesis unfolding patch_cells_append by blast
  qed
  show ?thesis unfolding footer_items_def by (rule fields_ok_append[OF s IF dis])
qed

lemma tail_bytes_segment_items: "tail_bytes (segment_items off segs) = concat (map seg_bytes segs)"
  by (induction segs arbitrary: off) (simp_all add: tail_bytes_Cons)

lemma tail_bytes_import_items:
  "tail_bytes (import_items off imps) = concat (map (\<lambda>import. cstr_bytes (func_name import)) imps)"
  by (induction imps arbitrary: off) (simp_all add: tail_bytes_Cons)

lemma tail_bytes_function_items:
  "tail_bytes (function_items off fs) =
     concat (map (\<lambda>function. cstr_bytes (exported_name function)) (filter exported fs))"
  by (induction fs arbitrary: off) (simp_all add: tail_bytes_Cons)

lemma tail_bytes_footer_items: "tail_bytes (footer_items m) = footer_tail m"
  by (simp add: footer_items_def footer_tail_def tail_bytes_append tail_bytes_segment_items
        tail_bytes_import_items tail_bytes_function_items)

lemma take_segment_items: "take k (segment_items off segs) = segment_items off (take k segs)"
  by (induction segs arbitrary: off k) (simp_all add: take_Cons split: nat.split)

lemma take_import_items: "take k (import_items off imps) = import_items off (take k imps)"
  by (induction imps arbitrary: off k) (simp_all add: take_Cons split: nat.split)

lemma take_function_items: "take k (function_items off fs) = function_items off (take k fs)"
  by (induction fs arbitrary: off k) (simp_all add: take_Cons split: nat.split)

lemma length_segment_items [simp]: "length (segment_items off segs) = length segs"
  by (induction segs arbitrary: off) simp_all

lemma length_import_items [simp]: "length (import_items off imps) = length imps"
  by (induction imps arbitrary: off) simp_all

lemma length_function_items [simp]: "length (function_items off fs) = length fs"
  by (induction fs arbitrary: off) simp_all

lemma segment_items_nth:
  "s < length segs \<Longrightarrow>
   segment_items off segs ! s = (Some (off + 13 * s + SEGMENT_HEADER_DATA_OFFSET), seg_bytes (segs ! s))"
proof (induction segs arbitrary: off s)
  case Nil
  then show ?case by simp
next
  case (Cons x segs)
  show ?case
  proof (cases s)
    case 0
    then show ?thesis by simp
  next
    case (Suc t)
    with Cons.prems have "t < length segs" by simp
    from Cons.IH[OF this, of "off + SEGMENT_HEADER_SIZE"] show ?thesis
      by (simp add: Suc SEGMENT_HEADER_SIZE_def)
  qed
qed

lemma import_items_nth:
  "j < length imps \<Longrightarrow>
   import_items off imps ! j =
     (Some (off + (\<Sum>import\<leftarrow>take j imps. 24 + length (args import)) +
            FUNC_HEADER_NAME_OFFSET (length (args (imps ! j)))),
      cstr_bytes (func_name (imps ! j)))"
proof (induction imps arbitrary: off j)
  case Nil
  then show ?case by simp
next
  case (Cons x imps)
  show ?case
  proof (cases j)
    case 0
    then show ?thesis by simp
  next
    case (Suc t)
    with Cons.prems have "t < length imps" by simp
    from Cons.IH[OF this, of "off + FUNC_HEADER_SIZE (length (args x))"] show ?thesis
      by (simp add: Suc FUNC_HEADER_SIZE_def add.assoc)
  qed
qed

lemma function_items_nth:
  "i < length fs \<Longrightarrow>
   function_items off fs ! i =
     (if exported (fs ! i)
      then (Some (off + (\<Sum>function\<leftarrow>take i fs. 24 + num_args function) +
                  FUNC_HEADER_NAME_OFFSET (num_args (fs ! i))),
            cstr_bytes (exported_name (fs ! i)))
      else (None, []))"
proof (induction fs arbitrary: off i)
  case Nil
  then show ?case by simp
next
  case (Cons x fs)
  show ?case
  proof (cases i)
    case 0
    then show ?thesis by simp
  next
    case (Suc t)
    with Cons.prems have "t < length fs" by simp
    from Cons.IH[OF this, of "off + FUNC_HEADER_SIZE (num_args x)"] show ?thesis
      by (simp add: Suc FUNC_HEADER_SIZE_def add.assoc)
  qed
qed

lemma le_value_le_bytes: "v < 256 ^ n \<Longrightarrow> le_value (le_bytes n v) = v"
proof (induction n arbitrary: v)
  case 0
  then show ?case by simp
next
  case (Suc n)
  from Suc.prems have "v div 256 < 256 ^ n"
    by (simp add: less_mult_imp_div_less mult.commute)
  then have "le_value (le_bytes n (v div 256)) = v div 256" by (rule Suc.IH)
  moreover have "unat (of_nat (v mod 256) :: u8) = v mod 256" by (simp add: unat_of_nat)
  ultimately show ?case by simp
qed

lemma field_u32_eq:
  "map (start b) [p..<p + 4] = le_bytes 4 (v mod 2 ^ 32) \<Longrightarrow> v < 2 ^ 32 \<Longrightarrow> field_u32 b p = v"
  using le_value_le_bytes[of v 4] by (simp add: field_u32_def bytes_at_def)

lemma module_footer_mem:
  assumes cap: "0 < capacity (buf ctx)"
    and len: "length (segment_header_offsets ctx) = length (segments m)"
    and tab: "\<forall>s<length (segments m). segment_header_offsets ctx ! s = of_nat (segment_header_offset m s)"
    and H1: "headers_size m \<le> size_buf (buf ctx)" and H2: "headers_size m < 2 ^ 32"
    and ok: "list_all segment_ok (segments m)"
  shows "\<exists>b'. out_module_footer ctx m = Some (ctx\<lparr>buf := b'\<rparr>) \<and>
           start b' = tail_mem (start (buf ctx)) (size_buf (buf ctx)) (footer_items m) \<and>
           size_buf b' = size_buf (buf ctx) + length (footer_tail m) \<and>
           capacity (buf ctx) \<le> capacity b'"
proof -
  let ?H = "headers_size m"
  let ?so = "segment_header_offset m 0"
  let ?io = "FUNC_HEADERS_OFFSET (length (globals m))"
  let ?fo = "function_header_offset m 0"
  let ?S = "segment_items ?so (segments m)"
  let ?I = "import_items ?io (imports_m m)"
  let ?F = "function_items ?fo (functions_m m)"
  have t: "\<forall>k<length (segments m). 0 + k < length (segment_header_offsets ctx) \<and>
             segment_header_offsets ctx ! (0 + k) = of_nat (?so + 13 * k)"
    using len tab by (simp add: segment_header_offset_def)
  have hs: "?so + 13 * length (segments m) \<le> ?H" by (simp add: headers_size_parts)
  from footer_segments_mem[OF cap t hs H1 H2 ok] obtain b1 where
    r1: "out_footer_segments (buf ctx) (segment_header_offsets ctx) 0 (segments m) = Some b1"
    and m1: "start b1 = tail_mem (start (buf ctx)) (size_buf (buf ctx)) ?S"
    and s1: "size_buf b1 = size_buf (buf ctx) + length (tail_bytes ?S)"
    and c1: "capacity (buf ctx) \<le> capacity b1"
    by blast
  from c1 cap have cap1: "0 < capacity b1" by simp
  have hi: "?io + (\<Sum>import\<leftarrow>imports_m m. 24 + length (args import)) \<le> ?H"
    by (simp add: headers_size_parts import_headers_size_def)
  from H1 s1 have H1': "?H \<le> size_buf b1" by simp
  from footer_imports_mem[OF cap1 hi H1' H2] obtain b2 where
    r2: "out_footer_imports b1 (of_nat ?io) (imports_m m) = Some (b2, of_nat ?fo)"
    and m2: "start b2 = tail_mem (start b1) (size_buf b1) ?I"
    and s2: "size_buf b2 = size_buf b1 + length (tail_bytes ?I)"
    and c2: "capacity b1 \<le> capacity b2"
    by (auto simp: headers_size_parts import_headers_size_def)
  from c2 cap1 have cap2: "0 < capacity b2" by simp
  have hf: "?fo + (\<Sum>function\<leftarrow>functions_m m. 24 + num_args function) \<le> ?H"
    by (simp add: headers_size_parts)
  from H1' s2 have H1'': "?H \<le> size_buf b2" by simp
  from footer_functions_mem[OF cap2 hf H1'' H2] obtain b3 o3 where
    r3: "out_footer_functions b2 (of_nat ?fo) (functions_m m) = Some (b3, o3)"
    and m3: "start b3 = tail_mem (start b2) (size_buf b2) ?F"
    and s3: "size_buf b3 = size_buf b2 + length (tail_bytes ?F)"
    and c3: "capacity b2 \<le> capacity b3"
    by blast
  have r: "out_module_footer ctx m = Some (ctx\<lparr>buf := b3\<rparr>)"
    using r1 r2 r3 by (simp add: out_module_footer_def Let_def)
  have m: "start b3 = tail_mem (start (buf ctx)) (size_buf (buf ctx)) (footer_items m)"
    unfolding footer_items_def tail_mem_append m3 m2 m1 s2 s1
    by (simp add: tail_bytes_append add.assoc)
  have s: "size_buf b3 = size_buf (buf ctx) + length (footer_tail m)"
    unfolding s3 s2 s1 tail_bytes_footer_items[symmetric] footer_items_def
    by (simp add: tail_bytes_append)
  from c1 c2 c3 have "capacity (buf ctx) \<le> capacity b3" by simp
  with r m s show ?thesis by blast
qed

lemma footer_items_segment:
  assumes "s < length (segments m)"
  shows "footer_items m ! s =
           (Some (segment_header_offset m s + SEGMENT_HEADER_DATA_OFFSET), seg_bytes (segments m ! s))"
    and "item_start n (footer_items m) s = segment_data_start m n s"
proof -
  show "footer_items m ! s =
           (Some (segment_header_offset m s + SEGMENT_HEADER_DATA_OFFSET), seg_bytes (segments m ! s))"
    using assms segment_items_nth[OF assms, of "segment_header_offset m 0"]
    by (simp add: footer_items_def nth_append segment_header_offset_def)
  show "item_start n (footer_items m) s = segment_data_start m n s"
    using assms
    by (simp add: item_start_def footer_items_def segment_data_start_def take_segment_items
          tail_bytes_segment_items)
qed

lemma footer_items_import:
  assumes "j < length (imports_m m)"
  shows "footer_items m ! (length (segments m) + j) =
           (Some (import_header_offset m j + FUNC_HEADER_NAME_OFFSET (length (args (imports_m m ! j)))),
            cstr_bytes (func_name (imports_m m ! j)))"
    and "item_start n (footer_items m) (length (segments m) + j) = import_name_start m n j"
proof -
  show "footer_items m ! (length (segments m) + j) =
           (Some (import_header_offset m j + FUNC_HEADER_NAME_OFFSET (length (args (imports_m m ! j)))),
            cstr_bytes (func_name (imports_m m ! j)))"
    using assms import_items_nth[OF assms, of "FUNC_HEADERS_OFFSET (length (globals m))"]
    by (simp add: footer_items_def nth_append import_header_offset_def FUNC_HEADERS_OFFSET_def
          GLOBAL_HEADERS_OFFSET_def GLOBAL_HEADER_SIZE_def)
  show "item_start n (footer_items m) (length (segments m) + j) = import_name_start m n j"
    using assms
    by (simp add: item_start_def footer_items_def import_name_start_def take_import_items
          tail_bytes_append tail_bytes_segment_items tail_bytes_import_items)
qed

lemma footer_items_function:
  assumes "i < length (functions_m m)"
  shows "footer_items m ! (length (segments m) + length (imports_m m) + i) =
           (if exported (functions_m m ! i)
            then (Some (function_header_offset m i +
                        FUNC_HEADER_NAME_OFFSET (num_args (functions_m m ! i))),
                  cstr_bytes (exported_name (functions_m m ! i)))
            else (None, []))"
    and "item_start n (footer_items m) (length (segments m) + length (imports_m m) + i) =
           function_name_start m n i"
proof -
  show "footer_items m ! (length (segments m) + length (imports_m m) + i) =
           (if exported (functions_m m ! i)
            then (Some (function_header_offset m i +
                        FUNC_HEADER_NAME_OFFSET (num_args (functions_m m ! i))),
                  cstr_bytes (exported_name (functions_m m ! i)))
            else (None, []))"
    using assms function_items_nth[OF assms, of "function_header_offset m 0"]
    by (simp add: footer_items_def nth_append function_header_offset_def add.assoc)
  show "item_start n (footer_items m) (length (segments m) + length (imports_m m) + i) =
           function_name_start m n i"
    using assms
    by (simp add: item_start_def footer_items_def function_name_start_def take_function_items
          tail_bytes_append tail_bytes_segment_items tail_bytes_import_items
          tail_bytes_function_items add.assoc)
qed

lemma length_footer_items:
  "length (footer_items m) = length (segments m) + length (imports_m m) + length (functions_m m)"
  by (simp add: footer_items_def)

lemma tail_mem_tail:
  "fields_ok H items \<Longrightarrow> H \<le> n \<Longrightarrow>
   map (tail_mem mem n items) [n..<n + length (tail_bytes items)] = tail_bytes items"
proof (induction items arbitrary: mem n)
  case Nil
  show ?case by simp
next
  case (Cons item items)
  obtain pos bs where item: "item = (pos, bs)" by (cases item)
  let ?mem1 = "memcpy (case pos of None \<Rightarrow> mem | Some p \<Rightarrow> memcpy mem p (le_bytes 4 (n mod 2 ^ 32))) n bs"
  let ?n1 = "n + length bs"
  from Cons.prems have ok: "fields_ok H items" by simp
  from Cons.prems(2) have Hn: "H \<le> ?n1" by simp
  from fields_ok_cells[OF ok] have cells: "patch_cells items \<subseteq> {0..<H}" .
  have step: "tail_mem mem n (item # items) = tail_mem ?mem1 ?n1 items" by (simp add: item)
  have a: "map (tail_mem ?mem1 ?n1 items) [n..<?n1] = bs"
  proof (rule nth_equalityI)
    show "length (map (tail_mem ?mem1 ?n1 items) [n..<?n1]) = length bs" by simp
    fix i assume "i < length (map (tail_mem ?mem1 ?n1 items) [n..<?n1])"
    then have i: "i < length bs" by simp
    have "n + i \<notin> patch_cells items" using cells Cons.prems(2) by auto
    with i have "tail_mem ?mem1 ?n1 items (n + i) = ?mem1 (n + i)"
      by (intro tail_mem_frame[OF ok Hn]) simp_all
    also have "\<dots> = bs ! i" using i by (rule memcpy_inside)
    finally show "map (tail_mem ?mem1 ?n1 items) [n..<?n1] ! i = bs ! i" using i by simp
  qed
  have b: "map (tail_mem ?mem1 ?n1 items) [?n1..<?n1 + length (tail_bytes items)] = tail_bytes items"
    by (rule Cons.IH[OF ok Hn])
  have "[n..<n + length (tail_bytes (item # items))] =
        [n..<?n1] @ [?n1..<?n1 + length (tail_bytes items)]"
    using upt_add_eq_append[of n "n + length bs" "length (tail_bytes items)"]
    by (simp add: tail_bytes_Cons item add.assoc)
  then have "map (tail_mem mem n (item # items)) [n..<n + length (tail_bytes (item # items))] =
        map (tail_mem ?mem1 ?n1 items) [n..<?n1] @
        map (tail_mem ?mem1 ?n1 items) [?n1..<?n1 + length (tail_bytes items)]"
    by (simp only: step map_append)
  also have "\<dots> = tail_bytes (item # items)" by (simp only: a b tail_bytes_Cons item snd_conv)
  finally show ?case .
qed

lemma function_items_unpatched:
  "i < length fs \<Longrightarrow> \<not> exported (fs ! i) \<Longrightarrow>
   off + (\<Sum>function\<leftarrow>take i fs. 24 + num_args function) \<le> x \<Longrightarrow>
   x < off + (\<Sum>function\<leftarrow>take (Suc i) fs. 24 + num_args function) \<Longrightarrow>
   x \<notin> patch_cells (function_items off fs)"
proof (induction fs arbitrary: off i)
  case Nil
  then show ?case by simp
next
  case (Cons f fs)
  show ?case
  proof (cases i)
    case 0
    with Cons.prems function_items_cells[of "off + FUNC_HEADER_SIZE (num_args f)" fs] show ?thesis
      by (auto simp: patch_cells_Cons FUNC_HEADER_SIZE_def)
  next
    case (Suc j)
    with Cons.prems have j: "j < length fs" "\<not> exported (fs ! j)"
      and lo: "off + FUNC_HEADER_SIZE (num_args f) + (\<Sum>function\<leftarrow>take j fs. 24 + num_args function) \<le> x"
      and hi: "x < off + FUNC_HEADER_SIZE (num_args f) + (\<Sum>function\<leftarrow>take (Suc j) fs. 24 + num_args function)"
      by (simp_all add: FUNC_HEADER_SIZE_def)
    from Cons.IH[OF j lo hi] have "x \<notin> patch_cells (function_items (off + FUNC_HEADER_SIZE (num_args f)) fs)" .
    moreover from lo have "x \<notin> item_cells (if exported f
        then (Some (off + FUNC_HEADER_NAME_OFFSET (num_args f)), cstr_bytes (exported_name f))
        else (None, []))"
      by (auto simp: FUNC_HEADER_SIZE_def FUNC_HEADER_NAME_OFFSET_def FUNC_SIG_SIZE_def)
    ultimately show ?thesis by (simp add: patch_cells_Cons)
  qed
qed

lemma footer_unexported_frame:
  assumes i: "i < length (functions_m m)" and ne: "\<not> exported (functions_m m ! i)"
    and x: "function_header_offset m i \<le> x" "x < function_header_offset m (Suc i)"
  shows "x \<notin> patch_cells (footer_items m)"
proof -
  let ?fo = "function_header_offset m 0"
  have f0: "function_header_offset m k = ?fo + (\<Sum>function\<leftarrow>take k (functions_m m). 24 + num_args function)" for k
    by (simp add: function_header_offset_def)
  from x have "x \<notin> patch_cells (function_items ?fo (functions_m m))"
    unfolding f0[of i] f0[of "Suc i"] by (rule function_items_unpatched[OF i ne])
  moreover have "x \<notin> patch_cells (import_items (FUNC_HEADERS_OFFSET (length (globals m))) (imports_m m))"
  proof -
    have "?fo \<le> x" using x(1) unfolding f0[of i] by simp
    then show ?thesis
      using import_items_cells[of "FUNC_HEADERS_OFFSET (length (globals m))" "imports_m m"]
      by (auto simp: headers_size_parts import_headers_size_def)
  qed
  moreover have "x \<notin> patch_cells (segment_items (segment_header_offset m 0) (segments m))"
  proof -
    have "function_header_offset m (Suc i) \<le> segment_header_offset m 0"
      unfolding f0[of "Suc i"] headers_size_parts(2)
      using sum_take_le[of "\<lambda>f. 24 + num_args f" "Suc i" "functions_m m"] by simp
    with x(2) have "x < segment_header_offset m 0" by simp
    then show ?thesis
      using segment_items_cells[of "segment_header_offset m 0" "segments m"] by auto
  qed
  ultimately show ?thesis by (simp add: footer_items_def patch_cells_append)
qed

lemma length_cstr_bytes: "length (cstr_bytes s) = strlen s + 1"
  using length_takeWhile_le[of "\<lambda>c. c \<noteq> CHR 0x00" s]
  by (simp add: cstr_bytes_def strlen_def)

text \<open>
  Claim C7. \<^verbatim>\<open>after_module\<close> appends, after everything written before it, the payloads
  of the segments in declaration order, then the names of the imports, then the names of
  the exported functions, each name with its terminating zero. The data-offset field of
  every segment header holds the buffer offset at which that segment's payload begins,
  the name-offset field of every import header and of every exported function's header
  holds the offset at which that name begins, and the name-offset field of a function
  that is not exported is left as it was.
\<close>

theorem module_footer:
  assumes "0 < capacity (buf ctx)"
    and "length (segment_header_offsets ctx) = length (segments m)"
    and "\<forall>s<length (segments m). segment_header_offsets ctx ! s = of_nat (segment_header_offset m s)"
    and "headers_size m \<le> size_buf (buf ctx)"
    and "size_buf (buf ctx) + length (footer_tail m) < 2 ^ 32"
    and "list_all segment_ok (segments m)"
  shows "\<exists>b'. after_module m ctx = Some (ctx\<lparr>buf := b'\<rparr>) \<and>
     size_buf b' = size_buf (buf ctx) + length (footer_tail m) \<and>
     bytes_at b' (size_buf (buf ctx)) (length (footer_tail m)) = footer_tail m \<and>
     (\<forall>s<length (segments m).
        field_u32 b' (segment_header_offset m s + SEGMENT_HEADER_DATA_OFFSET) =
          segment_data_start m (size_buf (buf ctx)) s \<and>
        bytes_at b' (segment_data_start m (size_buf (buf ctx)) s) (size_seg (segments m ! s)) =
          take (size_seg (segments m ! s)) (data (segments m ! s))) \<and>
     (\<forall>j<length (imports_m m).
        field_u32 b' (import_header_offset m j +
                      FUNC_HEADER_NAME_OFFSET (length (args (imports_m m ! j)))) =
          import_name_start m (size_buf (buf ctx)) j \<and>
        bytes_at b' (import_name_start m (size_buf (buf ctx)) j)
          (strlen (func_name (imports_m m ! j)) + 1) =
          cstr_bytes (func_name (imports_m m ! j))) \<and>
     (\<forall>i<length (functions_m m).
        if exported (functions_m m ! i)
        then field_u32 b' (function_header_offset m i +
                           FUNC_HEADER_NAME_OFFSET (num_args (functions_m m ! i))) =
               function_name_start m (size_buf (buf ctx)) i \<and>
             bytes_at b' (function_name_start m (size_buf (buf ctx)) i)
               (strlen (exported_name (functions_m m ! i)) + 1) =
               cstr_bytes (exported_name (functions_m m ! i))
        else bytes_at b' (function_header_offset m i +
                          FUNC_HEADER_NAME_OFFSET (num_args (functions_m m ! i))) 4 =
             bytes_at (buf ctx) (function_header_offset m i +
                          FUNC_HEADER_NAME_OFFSET (num_args (functions_m m ! i))) 4)"
proof -
  let ?n = "size_buf (buf ctx)"
  let ?H = "headers_size m"
  let ?items = "footer_items m"
  from assms(4,5) have H2: "?H < 2 ^ 32" by simp
  from module_footer_mem[OF assms(1,2,3,4) H2 assms(6)] obtain b' where
    r: "out_module_footer ctx m = Some (ctx\<lparr>buf := b'\<rparr>)"
    and mem: "start b' = tail_mem (start (buf ctx)) ?n ?items"
    and sz: "size_buf b' = ?n + length (footer_tail m)"
    by (elim exE conjE)
  note ok = footer_items_ok[of m]
  note it = tail_mem_items[OF ok assms(4), of _ "start (buf ctx)", folded mem]
  have bound: "item_start ?n ?items k < 2 ^ 32" if "k \<le> length ?items" for k
    using item_start_le[OF that, of ?n] assms(5) by (simp add: tail_bytes_footer_items)
  have tail: "bytes_at b' ?n (length (footer_tail m)) = footer_tail m"
    using tail_mem_tail[OF ok assms(4), of "start (buf ctx)"]
    by (simp add: bytes_at_def mem tail_bytes_footer_items)
  have seg: "field_u32 b' (segment_header_offset m s + SEGMENT_HEADER_DATA_OFFSET) =
          segment_data_start m ?n s \<and>
        bytes_at b' (segment_data_start m ?n s) (size_seg (segments m ! s)) =
          take (size_seg (segments m ! s)) (data (segments m ! s))"
    if s: "s < length (segments m)" for s
  proof -
    from s have k: "s < length ?items" by (simp add: length_footer_items)
    from assms(6) s have sok: "segment_ok (segments m ! s)" by (simp add: list_all_length)
    note i = it[OF k, unfolded footer_items_segment[OF s]]
    from i[THEN conjunct2, rule_format, of "segment_header_offset m s + SEGMENT_HEADER_DATA_OFFSET"]
    have "field_u32 b' (segment_header_offset m s + SEGMENT_HEADER_DATA_OFFSET) =
          segment_data_start m ?n s"
      using bound[of s] k
      by (intro field_u32_eq) (simp_all add: footer_items_segment(2)[OF s])
    moreover from i[THEN conjunct1]
    have "bytes_at b' (segment_data_start m ?n s) (size_seg (segments m ! s)) =
          take (size_seg (segments m ! s)) (data (segments m ! s))"
      using sok by (auto simp: bytes_at_def seg_bytes_def segment_ok_def min_def split: if_splits)
    ultimately show ?thesis by simp
  qed
  have imp: "field_u32 b' (import_header_offset m j +
                      FUNC_HEADER_NAME_OFFSET (length (args (imports_m m ! j)))) =
          import_name_start m ?n j \<and>
        bytes_at b' (import_name_start m ?n j) (strlen (func_name (imports_m m ! j)) + 1) =
          cstr_bytes (func_name (imports_m m ! j))"
    if j: "j < length (imports_m m)" for j
  proof -
    let ?k = "length (segments m) + j"
    from j have k: "?k < length ?items" by (simp add: length_footer_items)
    note i = it[OF k, unfolded footer_items_import[OF j]]
    from i[THEN conjunct2, rule_format,
        of "import_header_offset m j + FUNC_HEADER_NAME_OFFSET (length (args (imports_m m ! j)))"]
    have "field_u32 b' (import_header_offset m j +
                      FUNC_HEADER_NAME_OFFSET (length (args (imports_m m ! j)))) =
          import_name_start m ?n j"
      using bound[of ?k] k
      by (intro field_u32_eq) (simp_all add: footer_items_import(2)[OF j])
    moreover from i[THEN conjunct1]
    have "bytes_at b' (import_name_start m ?n j) (strlen (func_name (imports_m m ! j)) + 1) =
          cstr_bytes (func_name (imports_m m ! j))"
      by (simp add: bytes_at_def length_cstr_bytes)
    ultimately show ?thesis by simp
  qed
  have fn: "if exported (functions_m m ! i)
        then field_u32 b' (function_header_offset m i +
                           FUNC_HEADER_NAME_OFFSET (num_args (functions_m m ! i))) =
               function_name_start m ?n i \<and>
             bytes_at b' (function_name_start m ?n i)
               (strlen (exported_name (functions_m m ! i)) + 1) =
               cstr_bytes (exported_name (functions_m m ! i))
        else bytes_at b' (function_header_offset m i +
                          FUNC_HEADER_NAME_OFFSET (num_args (functions_m m ! i))) 4 =
             bytes_at (buf ctx) (function_header_offset m i +
                          FUNC_HEADER_NAME_OFFSET (num_args (functions_m m ! i))) 4"
    if i: "i < length (functions_m m)" for i
  proof (cases "exported (functions_m m ! i)")
    case True
    let ?k = "length (segments m) + length (imports_m m) + i"
    from i have k: "?k < length ?items" by (simp add: length_footer_items)
    note t = it[OF k, unfolded footer_items_function[OF i] if_P[OF True]]
    from t[THEN conjunct2, rule_format,
        of "function_header_offset m i + FUNC_HEADER_NAME_OFFSET (num_args (functions_m m ! i))"]
    have "field_u32 b' (function_header_offset m i +
                           FUNC_HEADER_NAME_OFFSET (num_args (functions_m m ! i))) =
               function_name_start m ?n i"
      using bound[of ?k] k
      by (intro field_u32_eq) (simp_all add: footer_items_function(2)[OF i])
    moreover from t[THEN conjunct1]
    have "bytes_at b' (function_name_start m ?n i)
               (strlen (exported_name (functions_m m ! i)) + 1) =
               cstr_bytes (exported_name (functions_m m ! i))"
      by (simp add: bytes_at_def length_cstr_bytes)
    ultimately show ?thesis using True by simp
  next
    case False
    let ?p = "function_header_offset m i + FUNC_HEADER_NAME_OFFSET (num_args (functions_m m ! i))"
    have e: "function_header_offset m (Suc i) =
             function_header_offset m i + (24 + num_args (functions_m m ! i))"
      using i by (simp add: function_header_offset_def take_Suc_conv_app_nth)
    have "start b' x = start (buf ctx) x" if x: "x \<in> set [?p..<?p + 4]" for x
    proof -
      from x have lo: "function_header_offset m i \<le> x" and hi: "x < function_header_offset m (Suc i)"
        unfolding e by (simp_all add: FUNC_HEADER_NAME_OFFSET_def FUNC_SIG_SIZE_def)
      from footer_unexported_frame[OF i False lo hi] have np: "x \<notin> patch_cells ?items" .
      from hi function_header_offset_le[of m "Suc i"] assms(4) have "x < ?n" by simp
      from tail_mem_frame[OF ok assms(4) this np, of "start (buf ctx)"] show ?thesis
        by (simp add: mem)
    qed
    then have "bytes_at b' ?p 4 = bytes_at (buf ctx) ?p 4"
      unfolding bytes_at_def by (intro map_cong) simp_all
    with False show ?thesis by simp
  qed
  from seg have S: "\<forall>s<length (segments m).
        field_u32 b' (segment_header_offset m s + SEGMENT_HEADER_DATA_OFFSET) =
          segment_data_start m ?n s \<and>
        bytes_at b' (segment_data_start m ?n s) (size_seg (segments m ! s)) =
          take (size_seg (segments m ! s)) (data (segments m ! s))"
    by blast
  from imp have I: "\<forall>j<length (imports_m m).
        field_u32 b' (import_header_offset m j +
                      FUNC_HEADER_NAME_OFFSET (length (args (imports_m m ! j)))) =
          import_name_start m ?n j \<and>
        bytes_at b' (import_name_start m ?n j) (strlen (func_name (imports_m m ! j)) + 1) =
          cstr_bytes (func_name (imports_m m ! j))"
    by blast
  from fn have F: "\<forall>i<length (functions_m m).
        if exported (functions_m m ! i)
        then field_u32 b' (function_header_offset m i +
                           FUNC_HEADER_NAME_OFFSET (num_args (functions_m m ! i))) =
               function_name_start m ?n i \<and>
             bytes_at b' (function_name_start m ?n i)
               (strlen (exported_name (functions_m m ! i)) + 1) =
               cstr_bytes (exported_name (functions_m m ! i))
        else bytes_at b' (function_header_offset m i +
                          FUNC_HEADER_NAME_OFFSET (num_args (functions_m m ! i))) 4 =
             bytes_at (buf ctx) (function_header_offset m i +
                          FUNC_HEADER_NAME_OFFSET (num_args (functions_m m ! i))) 4"
    by blast
  from r have r': "after_module m ctx = Some (ctx\<lparr>buf := b'\<rparr>)"
    by (simp add: after_module_def)
  from r' sz tail S I F show ?thesis
    by (intro exI[of _ b'] conjI)
qed

lemma cstr_print: "cstr_bytes ''print'' = [112, 114, 105, 110, 116, 0]"
  by (simp add: cstr_bytes_def strlen_def)

lemma cstr_add: "cstr_bytes ''add'' = [97, 100, 100, 0]"
  by (simp add: cstr_bytes_def strlen_def)

lemma sample_module2_tail:
  "footer_tail sample_module2 = [1, 2, 3, 4, 5, 112, 114, 105, 110, 116, 0, 97, 100, 100, 0]"
  by (simp add: footer_tail_def sample_module2_def seg_bytes_def cstr_print cstr_add)

theorem module_footer_witness:
  "0 < capacity (buf sample_footer_ctx) \<and>
   segment_header_offsets sample_footer_ctx = [89, 102] \<and>
   headers_size sample_module2 \<le> size_buf (buf sample_footer_ctx) \<and>
   size_buf (buf sample_footer_ctx) + length (footer_tail sample_module2) < 2 ^ 32 \<and>
   list_all segment_ok (segments sample_module2) \<and>
   (\<exists>b'. after_module sample_module2 sample_footer_ctx = Some (sample_footer_ctx\<lparr>buf := b'\<rparr>) \<and>
      size_buf b' = 135 \<and>
      bytes_at b' 120 15 = [1, 2, 3, 4, 5, 112, 114, 105, 110, 116, 0, 97, 100, 100, 0] \<and>
      field_u32 b' 93 = 120 \<and> field_u32 b' 106 = 124 \<and>
      field_u32 b' 17 = 125 \<and> field_u32 b' 67 = 131 \<and>
      bytes_at b' 41 4 = [0, 0, 0, 0])"
proof -
  let ?m = sample_module2 and ?c = sample_footer_ctx
  have h1: "0 < capacity (buf ?c)"
    by (simp add: sample_footer_ctx_def INITIAL_OUTPUT_BUFFER_CAPACITY_def)
  have tab: "segment_header_offsets ?c = [89, 102]" by (simp add: sample_footer_ctx_def)
  have nseg: "length (segments ?m) = 2" by (simp add: sample_module2_def)
  have h2: "length (segment_header_offsets ?c) = length (segments ?m)" by (simp add: tab nseg)
  have so: "segment_header_offset ?m 0 = 89" "segment_header_offset ?m (Suc 0) = 102"
    by (simp_all add: segment_header_offset_def function_header_offset_def
          import_headers_size_def sample_module2_def)
  have h3: "\<forall>s<length (segments ?m). segment_header_offsets ?c ! s = of_nat (segment_header_offset ?m s)"
    unfolding nseg tab using so by (simp add: less_Suc_eq numeral_2_eq_2)
  have n: "size_buf (buf ?c) = 120" by (simp add: sample_footer_ctx_def)
  have h4: "headers_size ?m \<le> size_buf (buf ?c)" by (simp add: sample_module2_size n)
  have h5: "size_buf (buf ?c) + length (footer_tail ?m) < 2 ^ 32"
    by (simp add: n sample_module2_tail)
  have h6: "list_all segment_ok (segments ?m)" by (simp add: sample_module2_def segment_ok_def)
  from module_footer[OF h1 h2 h3 h4 h5 h6] obtain b' where
    r: "after_module ?m ?c = Some (?c\<lparr>buf := b'\<rparr>)"
    and sz: "size_buf b' = size_buf (buf ?c) + length (footer_tail ?m)"
    and tl: "bytes_at b' (size_buf (buf ?c)) (length (footer_tail ?m)) = footer_tail ?m"
    and S: "\<forall>s<length (segments ?m).
        field_u32 b' (segment_header_offset ?m s + SEGMENT_HEADER_DATA_OFFSET) =
          segment_data_start ?m (size_buf (buf ?c)) s \<and>
        bytes_at b' (segment_data_start ?m (size_buf (buf ?c)) s) (size_seg (segments ?m ! s)) =
          take (size_seg (segments ?m ! s)) (data (segments ?m ! s))"
    and I: "\<forall>j<length (imports_m ?m).
        field_u32 b' (import_header_offset ?m j +
                      FUNC_HEADER_NAME_OFFSET (length (args (imports_m ?m ! j)))) =
          import_name_start ?m (size_buf (buf ?c)) j \<and>
        bytes_at b' (import_name_start ?m (size_buf (buf ?c)) j)
          (strlen (func_name (imports_m ?m ! j)) + 1) =
          cstr_bytes (func_name (imports_m ?m ! j))"
    and F: "\<forall>i<length (functions_m ?m).
        if exported (functions_m ?m ! i)
        then field_u32 b' (function_header_offset ?m i +
                           FUNC_HEADER_NAME_OFFSET (num_args (functions_m ?m ! i))) =
               function_name_start ?m (size_buf (buf ?c)) i \<and>
             bytes_at b' (function_name_start ?m (size_buf (buf ?c)) i)
               (strlen (exported_name (functions_m ?m ! i)) + 1) =
               cstr_bytes (exported_name (functions_m ?m ! i))
        else bytes_at b' (function_header_offset ?m i +
                          FUNC_HEADER_NAME_OFFSET (num_args (functions_m ?m ! i))) 4 =
             bytes_at (buf ?c) (function_header_offset ?m i +
                          FUNC_HEADER_NAME_OFFSET (num_args (functions_m ?m ! i))) 4"
    by (elim exE conjE)
  from sz have c1: "size_buf b' = 135" by (simp add: n sample_module2_tail)
  have len: "length (footer_tail ?m) = 15" unfolding sample_module2_tail by simp
  from tl have c2: "bytes_at b' 120 15 = [1, 2, 3, 4, 5, 112, 114, 105, 110, 116, 0, 97, 100, 100, 0]"
    unfolding len n by (simp only: sample_module2_tail)
  have ds: "segment_data_start ?m 120 0 = 120" "segment_data_start ?m 120 (Suc 0) = 124"
    by (simp_all add: segment_data_start_def sample_module2_def seg_bytes_def)
  from S[rule_format, of 0] have c3: "field_u32 b' 93 = 120"
    by (simp add: nseg so n ds SEGMENT_HEADER_DATA_OFFSET_def)
  from S[rule_format, of "Suc 0"] have c4: "field_u32 b' 106 = 124"
    by (simp add: nseg so n ds SEGMENT_HEADER_DATA_OFFSET_def)
  have im: "length (imports_m ?m) = 1" "length (args (imports_m ?m ! 0)) = 1"
    "import_header_offset ?m 0 = 14" "import_name_start ?m 120 0 = 125"
    by (simp_all add: import_name_start_def import_header_offset_def sample_module2_def
          seg_bytes_def)
  from I[rule_format, of 0] have c5: "field_u32 b' 17 = 125"
    by (simp add: n im FUNC_HEADER_NAME_OFFSET_def FUNC_SIG_SIZE_def)
  have fo: "function_header_offset ?m 0 = 39" "function_header_offset ?m (Suc 0) = 63"
    by (simp_all add: function_header_offset_def import_headers_size_def sample_module2_def)
  have fs: "length (functions_m ?m) = 2" "exported (functions_m ?m ! Suc 0)"
    "num_args (functions_m ?m ! Suc 0) = 2" "\<not> exported (functions_m ?m ! 0)"
    "num_args (functions_m ?m ! 0) = 0" "function_name_start ?m 120 (Suc 0) = 131"
    by (simp_all add: function_name_start_def sample_module2_def seg_bytes_def cstr_print)
  from F[rule_format, of "Suc 0"] have c6: "field_u32 b' 67 = 131"
    by (simp add: n fo fs FUNC_HEADER_NAME_OFFSET_def FUNC_SIG_SIZE_def)
  from F[rule_format, of 0] have "bytes_at b' 41 4 = bytes_at (buf ?c) 41 4"
    by (simp add: n fo fs FUNC_HEADER_NAME_OFFSET_def FUNC_SIG_SIZE_def)
  also have "\<dots> = [0, 0, 0, 0]"
    by (simp add: bytes_at_def sample_footer_ctx_def upt_rec[of 41] upt_rec[of 42] upt_rec[of 43] upt_rec[of 44])
  finally have c7: "bytes_at b' 41 4 = [0, 0, 0, 0]" .
  from h1 tab h4 h5 h6 r c1 c2 c3 c4 c5 c6 c7 show ?thesis
    by (intro conjI exI[of _ b'])
qed

section \<open>An end-to-end scenario\<close>

lemma patched_contents:
  "patched b off bs b' \<Longrightarrow> off + length bs \<le> size_buf b \<Longrightarrow>
   contents b' = take off (contents b) @ bs @ drop (off + length bs) (contents b)"
  by (rule nth_equalityI) (auto simp: patched_def contents_def memcpy_def nth_append)

lemma before_function_total:
  assumes c: "0 < capacity (buf ctx)"
    and i1: "function_index < length (functions_m m)"
    and i2: "function_index < length (function_header_offsets ctx)"
    and e: "unat (function_header_offsets ctx ! function_index +
                  of_nat (FUNC_HEADER_CODE_START_OFFSET (num_args (functions_m m ! function_index))))
            \<le> size_buf (buf ctx)"
  shows "\<exists>b1 b2 b3. before_function ops m function_index ctx =
           Some (ctx\<lparr>function_num_exprs_offset := of_nat (size_buf (buf ctx) + 1), buf := b3\<rparr>) \<and>
           patched (buf ctx)
             (unat (function_header_offsets ctx ! function_index +
                  of_nat (FUNC_HEADER_CODE_START_OFFSET (num_args (functions_m m ! function_index)))))
             (le_bytes 4 (unat (of_nat (size_buf (buf ctx)) :: u32))) b1 \<and>
           appended b1 [word_of_int (WASM_OPCODE_BLOCK ops)] b2 \<and>
           appended b2 [0] b3"
proof -
  let ?off = "function_header_offsets ctx ! function_index +
                  of_nat (FUNC_HEADER_CODE_START_OFFSET (num_args (functions_m m ! function_index)))"
  from out_u32_at_total[OF e c, of "of_nat (size_buf (buf ctx))"] obtain b1 where
    b1: "out_u32_at (buf ctx) ?off (of_nat (size_buf (buf ctx))) = Some b1"
        "patched (buf ctx) (unat ?off) (le_bytes 4 (unat (of_nat (size_buf (buf ctx)) :: u32))) b1"
    by (elim exE conjE)
  from b1(2) c have c1: "0 < capacity b1" by (simp add: patched_def)
  from out_opcode_total[OF c1, of "WASM_OPCODE_BLOCK ops"] obtain b2 where
    b2: "out_opcode b1 (WASM_OPCODE_BLOCK ops) = Some b2"
        "appended b1 [word_of_int (WASM_OPCODE_BLOCK ops)] b2"
    by (elim exE conjE)
  from b2(2) c1 have c2: "0 < capacity b2" by (simp add: appended_def)
  from out_u8_total[OF c2, of 0] obtain b3 where
    b3: "out_u8 b2 0 = Some b3" "appended b2 [0] b3"
    by (elim exE conjE)
  have sz: "size_buf b2 = size_buf (buf ctx) + 1"
    using b1(2) b2(2) by (simp add: patched_def appended_def)
  have "before_function ops m function_index ctx =
           Some (ctx\<lparr>function_num_exprs_offset := of_nat (size_buf (buf ctx) + 1), buf := b3\<rparr>)"
    using i1 i2 b1(1) b2(1) b3(1) sz by (simp add: before_function_def Let_def)
  with b1(2) b2(2) b3(2) show ?thesis by (intro exI[of _ b1] exI[of _ b2] exI[of _ b3] conjI)
qed

lemma after_function_total:
  assumes c: "0 < capacity (buf ctx)"
    and i1: "function_index < length (functions_m m)"
    and i2: "function_index < length (function_header_offsets ctx)"
    and p: "unat (function_num_exprs_offset ctx) \<le> size_buf (buf ctx)"
    and e: "unat (function_header_offsets ctx ! function_index +
                  of_nat (FUNC_HEADER_CODE_END_OFFSET (num_args (functions_m m ! function_index))))
            \<le> size_buf (buf ctx)"
  shows "\<exists>b1 b2. after_function m function_index n ctx = Some (ctx\<lparr>buf := b2\<rparr>) \<and>
           patched (buf ctx) (unat (function_num_exprs_offset ctx)) [word_of_int n] b1 \<and>
           patched b1
             (unat (function_header_offsets ctx ! function_index +
                  of_nat (FUNC_HEADER_CODE_END_OFFSET (num_args (functions_m m ! function_index)))))
             (le_bytes 4 (unat (of_nat (size_buf (buf ctx)) :: u32))) b2"
proof -
  let ?off = "function_header_offsets ctx ! function_index +
                  of_nat (FUNC_HEADER_CODE_END_OFFSET (num_args (functions_m m ! function_index)))"
  from out_u8_at_total[OF p c, of "word_of_int n"] obtain b1 where
    b1: "out_u8_at (buf ctx) (function_num_exprs_offset ctx) (word_of_int n) = Some b1"
        "patched (buf ctx) (unat (function_num_exprs_offset ctx)) [word_of_int n] b1"
    by (elim exE conjE)
  from b1(2) c have c1: "0 < capacity b1" and s1: "size_buf b1 = size_buf (buf ctx)"
    by (simp_all add: patched_def)
  from e have e1: "unat ?off \<le> size_buf b1" by (simp add: s1)
  from out_u32_at_total[OF e1 c1, of "of_nat (size_buf b1)"] obtain b2 where
    b2: "out_u32_at b1 ?off (of_nat (size_buf b1)) = Some b2"
        "patched b1 (unat ?off) (le_bytes 4 (unat (of_nat (size_buf b1) :: u32))) b2"
    by (elim exE conjE)
  have "after_function m function_index n ctx = Some (ctx\<lparr>buf := b2\<rparr>)"
    using i1 i2 b1(1) b2(1) by (simp add: after_function_def Let_def)
  with b1(2) b2(2)[unfolded s1] show ?thesis by (intro exI[of _ b1] exI[of _ b2] conjI)
qed

lemma after_export_total:
  assumes c: "0 < capacity (buf ctx)"
    and i1: "function_index < length (functions_m m)"
    and i2: "function_index < length (function_header_offsets ctx)"
    and e: "unat (function_header_offsets ctx ! function_index +
                  of_nat (FUNC_HEADER_EXPORTED_OFFSET (num_args (functions_m m ! function_index))))
            \<le> size_buf (buf ctx)"
  shows "\<exists>b1. after_export m function_index ctx = Some (ctx\<lparr>buf := b1\<rparr>) \<and>
           patched (buf ctx)
             (unat (function_header_offsets ctx ! function_index +
                  of_nat (FUNC_HEADER_EXPORTED_OFFSET (num_args (functions_m m ! function_index)))))
             [1] b1"
proof -
  let ?off = "function_header_offsets ctx ! function_index +
                  of_nat (FUNC_HEADER_EXPORTED_OFFSET (num_args (functions_m m ! function_index)))"
  from out_u8_at_total[OF e c, of 1] obtain b1 where
    b1: "out_u8_at (buf ctx) ?off 1 = Some b1" "patched (buf ctx) (unat ?off) [1] b1"
    by (elim exE conjE)
  have "after_export m function_index ctx = Some (ctx\<lparr>buf := b1\<rparr>)"
    using i1 i2 b1(1) by (simp add: after_export_def Let_def)
  with b1(2) show ?thesis by (intro exI[of _ b1] conjI)
qed

lemma scenario_module_ok: "mem \<noteq> 1 \<Longrightarrow> module_ok (scenario_module mem)"
  by (simp add: module_ok_def scenario_module_def function_ok_def)

lemma scenario_header_bytes:
  "log_two_u32 mem = Some l \<Longrightarrow>
   header_bytes (scenario_module mem) =
     [ucast l, 1, 0, 0, 1, 0, 0, 0, 0, 0, 0, 0, 0, 0, 0, 0,
      0, 0, 0, 0, 0, 0, 0, 0, 0, 0, 0, 0, 0, 0, 0, 0]"
  by (simp add: header_bytes_def preamble_bytes_def function_header_bytes_def scenario_module_def
        arg_type_bytes_def count_locals_def DEFAULT_MEMORY_EXPORT_def le_bytes_numeral)

lemma scenario_tables:
  "planned_function_table (scenario_module mem) = [8]"
  "planned_segment_table (scenario_module mem) = []"
  by (simp_all add: planned_function_table_def planned_segment_table_def scenario_module_def
        FUNC_HEADERS_OFFSET_def GLOBAL_HEADERS_OFFSET_def GLOBAL_HEADER_SIZE_def)

lemma scenario_footer:
  "footer_items (scenario_module mem) = [(Some 10, cstr_bytes ''main'')]"
  "footer_tail (scenario_module mem) = cstr_bytes ''main''"
  "headers_size (scenario_module mem) = 32"
  by (simp_all add: footer_items_def footer_tail_def headers_size_def segment_header_offset_def
        function_header_offset_def import_headers_size_def scenario_module_def
        FUNC_HEADER_NAME_OFFSET_def FUNC_SIG_SIZE_def FUNC_HEADER_SIZE_def)

lemma cstr_main: "cstr_bytes ''main'' = [109, 97, 105, 110, 0]"
  by (simp add: cstr_bytes_def strlen_def)

lemma scenario_image:
  assumes mem: "mem \<noteq> 1"
  shows "\<exists>l ctx'. log_two_u32 mem = Some l \<and>
     scenario_calls fresh ops (scenario_module mem) ctx = Some ctx' \<and>
     contents (buf ctx') =
       [ucast l, 1, 0, 0, 1, 0, 0, 0,
        0, 0, 35, 0, 0, 0, 32, 0, 0, 0, 35, 0, 0, 0, 0, 0, 0, 0, 0, 0, 0, 0, 1, 0,
        word_of_int (WASM_OPCODE_BLOCK ops), 1, word_of_int (WASM_OPCODE_NOP ops),
        109, 97, 105, 110, 0]"
proof -
  let ?m = "scenario_module mem"
  let ?B = "word_of_int (WASM_OPCODE_BLOCK ops) :: u8"
  let ?N = "word_of_int (WASM_OPCODE_NOP ops) :: u8"
  from log_two_u32_Some[OF mem] obtain l where l: "log_two_u32 mem = Some l" ..
  note ok = scenario_module_ok[OF mem]
  have fm: "length (functions_m ?m) = 1" "num_args (functions_m ?m ! 0) = 0"
    "segments ?m = []"
    by (simp_all add: scenario_module_def)
  let ?b0 = "init_output_buffer fresh (buf ctx) INITIAL_OUTPUT_BUFFER_CAPACITY"
  let ?c1 = "ctx\<lparr>function_header_offsets := [8], segment_header_offsets := [],
                  module := Some ?m\<rparr>"
  \<comment> \<open>the header\<close>
  from before_module_total[OF ok, of fresh ctx] obtain b1 where
    r1: "before_module fresh ?m ctx = Some (?c1\<lparr>buf := b1\<rparr>)"
    and a1: "appended ?b0 (header_bytes ?m) b1"
    unfolding scenario_tables by (elim exE conjE)
  have k0: "contents ?b0 = []" "0 < capacity ?b0"
    by (simp_all add: contents_def init_output_buffer_def INITIAL_OUTPUT_BUFFER_CAPACITY_def)
  from appended_contents[OF a1] have k1: "contents b1 =
     [ucast l, 1, 0, 0, 1, 0, 0, 0, 0, 0, 0, 0, 0, 0, 0, 0,
      0, 0, 0, 0, 0, 0, 0, 0, 0, 0, 0, 0, 0, 0, 0, 0]"
    by (simp only: scenario_header_bytes[OF l] k0 append_Nil)
  have s1: "size_buf b1 = 32" using arg_cong[OF k1, of length] by simp
  from a1 k0(2) have cp1: "0 < capacity b1" by (simp add: appended_def)
  \<comment> \<open>the function opens\<close>
  let ?x1 = "?c1\<lparr>buf := b1\<rparr>"
  have t1: "function_header_offsets ?x1 = [8]" "buf ?x1 = b1" by simp_all
  have o14: "unat ((8 :: u32) + of_nat (FUNC_HEADER_CODE_START_OFFSET 0)) = 14"
    by (simp add: FUNC_HEADER_CODE_START_OFFSET_def FUNC_SIG_SIZE_def)
  have o18: "unat ((8 :: u32) + of_nat (FUNC_HEADER_CODE_END_OFFSET 0)) = 18"
    by (simp add: FUNC_HEADER_CODE_END_OFFSET_def FUNC_SIG_SIZE_def)
  have o30: "unat ((8 :: u32) + of_nat (FUNC_HEADER_EXPORTED_OFFSET 0)) = 30"
    by (simp add: FUNC_HEADER_EXPORTED_OFFSET_def FUNC_SIG_SIZE_def)
  have le32: "le_bytes 4 32 = [32, 0, 0, 0]" and le35: "le_bytes 4 35 = [35, 0, 0, 0]"
    by (simp_all add: le_bytes_numeral)
  have "\<exists>b2 b3 b4. before_function ops ?m 0 ?x1 =
           Some (?x1\<lparr>function_num_exprs_offset := of_nat (size_buf b1 + 1), buf := b4\<rparr>) \<and>
           patched b1 14 [32, 0, 0, 0] b2 \<and> appended b2 [?B] b3 \<and> appended b3 [0] b4"
    using before_function_total[of ?x1 0 ?m ops] cp1
    by (simp add: fm o14 s1 le32)
  then obtain b2 b3 b4 where
    r2: "before_function ops ?m 0 ?x1 =
           Some (?x1\<lparr>function_num_exprs_offset := of_nat (size_buf b1 + 1), buf := b4\<rparr>)"
    and p2: "patched b1 14 [32, 0, 0, 0] b2"
    and a3: "appended b2 [?B] b3" and a4: "appended b3 [0] b4"
    by (elim exE conjE)
  have k2: "contents b2 =
     [ucast l, 1, 0, 0, 1, 0, 0, 0, 0, 0, 0, 0, 0, 0, 32, 0,
      0, 0, 0, 0, 0, 0, 0, 0, 0, 0, 0, 0, 0, 0, 0, 0]"
    using patched_contents[OF p2] by (simp add: s1 k1)
  have k4: "contents b4 =
     [ucast l, 1, 0, 0, 1, 0, 0, 0, 0, 0, 0, 0, 0, 0, 32, 0,
      0, 0, 0, 0, 0, 0, 0, 0, 0, 0, 0, 0, 0, 0, 0, 0, ?B, 0]"
    using appended_contents[OF a3] appended_contents[OF a4] by (simp add: k2)
  from p2 a3 a4 cp1 have cp4: "0 < capacity b4" by (simp add: patched_def appended_def)
  \<comment> \<open>the no-op\<close>
  let ?x4 = "?x1\<lparr>function_num_exprs_offset := 33, buf := b4\<rparr>"
  have r2': "before_function ops ?m 0 ?x1 = Some ?x4" unfolding r2 s1 by simp
  from after_nop_total[of ?x4 ops] cp4 obtain b5 where
    r3: "after_nop ops ?x4 = Some (?x4\<lparr>buf := b5\<rparr>)" and a5: "appended b4 [?N] b5"
    by auto
  have k5: "contents b5 =
     [ucast l, 1, 0, 0, 1, 0, 0, 0, 0, 0, 0, 0, 0, 0, 32, 0,
      0, 0, 0, 0, 0, 0, 0, 0, 0, 0, 0, 0, 0, 0, 0, 0, ?B, 0, ?N]"
    using appended_contents[OF a5] by (simp add: k4)
  have s5: "size_buf b5 = 35" using arg_cong[OF k5, of length] by simp
  from a5 cp4 have cp5: "0 < capacity b5" by (simp add: appended_def)
  \<comment> \<open>the function closes\<close>
  let ?x5 = "?x1\<lparr>function_num_exprs_offset := 33, buf := b5\<rparr>"
  have r3': "after_nop ops ?x4 = Some ?x5" unfolding r3 by simp
  have "\<exists>b6 b7. after_function ?m 0 1 ?x5 = Some (?x5\<lparr>buf := b7\<rparr>) \<and>
           patched b5 33 [1] b6 \<and> patched b6 18 [35, 0, 0, 0] b7"
    using after_function_total[of ?x5 0 ?m 1] cp5
    by (simp add: fm o18 s5 le35)
  then obtain b6 b7 where
    r4: "after_function ?m 0 1 ?x5 = Some (?x5\<lparr>buf := b7\<rparr>)"
    and p6: "patched b5 33 [1] b6" and p7: "patched b6 18 [35, 0, 0, 0] b7"
    by (elim exE conjE)
  have s6: "size_buf b6 = 35" using p6 s5 by (simp add: patched_def)
  have k6: "contents b6 =
     [ucast l, 1, 0, 0, 1, 0, 0, 0, 0, 0, 0, 0, 0, 0, 32, 0,
      0, 0, 0, 0, 0, 0, 0, 0, 0, 0, 0, 0, 0, 0, 0, 0, ?B, 1, ?N]"
    using patched_contents[OF p6] by (simp add: s5 k5)
  have k7: "contents b7 =
     [ucast l, 1, 0, 0, 1, 0, 0, 0, 0, 0, 0, 0, 0, 0, 32, 0,
      0, 0, 35, 0, 0, 0, 0, 0, 0, 0, 0, 0, 0, 0, 0, 0, ?B, 1, ?N]"
    using patched_contents[OF p7] by (simp add: s6 k6)
  have s7: "size_buf b7 = 35" using p7 s6 by (simp add: patched_def)
  from p6 p7 cp5 have cp7: "0 < capacity b7" by (simp add: patched_def)
  \<comment> \<open>the export\<close>
  let ?x7 = "?x1\<lparr>function_num_exprs_offset := 33, buf := b7\<rparr>"
  have r4': "after_function ?m 0 1 ?x5 = Some ?x7" unfolding r4 by simp
  have r5: "before_export ?m ?x7 = Some ?x7" by (simp add: before_export_def)
  have "\<exists>b8. after_export ?m 0 ?x7 = Some (?x7\<lparr>buf := b8\<rparr>) \<and> patched b7 30 [1] b8"
    using after_export_total[of ?x7 0 ?m] cp7
    by (simp add: fm o30 s7)
  then obtain b8 where
    r6: "after_export ?m 0 ?x7 = Some (?x7\<lparr>buf := b8\<rparr>)" and p8: "patched b7 30 [1] b8"
    by (elim exE conjE)
  have k8: "contents b8 =
     [ucast l, 1, 0, 0, 1, 0, 0, 0, 0, 0, 0, 0, 0, 0, 32, 0,
      0, 0, 35, 0, 0, 0, 0, 0, 0, 0, 0, 0, 0, 0, 1, 0, ?B, 1, ?N]"
    using patched_contents[OF p8] by (simp add: s7 k7)
  have s8: "size_buf b8 = 35" using p8 s7 by (simp add: patched_def)
  from p8 cp7 have cp8: "0 < capacity b8" by (simp add: patched_def)
  \<comment> \<open>the footer\<close>
  let ?x8 = "?x1\<lparr>function_num_exprs_offset := 33, buf := b8\<rparr>"
  have r6': "after_export ?m 0 ?x7 = Some ?x8" unfolding r6 by simp
  have "\<exists>b9. out_module_footer ?x8 ?m = Some (?x8\<lparr>buf := b9\<rparr>) \<and>
           start b9 = memcpy (memcpy (start b8) 10 [35, 0, 0, 0]) 35 (cstr_bytes ''main'') \<and>
           size_buf b9 = 35 + length (cstr_bytes ''main'') \<and> capacity b8 \<le> capacity b9"
    using module_footer_mem[of ?x8 ?m] cp8
    by (simp add: fm scenario_footer s8 le35)
  then obtain b9 where
    r7: "out_module_footer ?x8 ?m = Some (?x8\<lparr>buf := b9\<rparr>)"
    and m9: "start b9 = memcpy (memcpy (start b8) 10 [35, 0, 0, 0]) 35 (cstr_bytes ''main'')"
    and s9: "size_buf b9 = 35 + length (cstr_bytes ''main'')"
    and cp9: "capacity b8 \<le> capacity b9"
    by (elim exE conjE)
  let ?b8' = "b8\<lparr>start := memcpy (start b8) 10 [35, 0, 0, 0]\<rparr>"
  have p9: "patched b8 10 [35, 0, 0, 0] ?b8'" by (simp add: patched_def)
  have a9: "appended ?b8' (cstr_bytes ''main'') b9"
    using m9 s9 cp9 by (simp add: appended_def s8)
  have k8': "contents ?b8' =
     [ucast l, 1, 0, 0, 1, 0, 0, 0, 0, 0, 35, 0, 0, 0, 32, 0,
      0, 0, 35, 0, 0, 0, 0, 0, 0, 0, 0, 0, 0, 0, 1, 0, ?B, 1, ?N]"
    using patched_contents[OF p9] by (simp add: s8 k8)
  have k9: "contents b9 =
     [ucast l, 1, 0, 0, 1, 0, 0, 0, 0, 0, 35, 0, 0, 0, 32, 0,
      0, 0, 35, 0, 0, 0, 0, 0, 0, 0, 0, 0, 0, 0, 1, 0, ?B, 1, ?N, 109, 97, 105, 110, 0]"
    using appended_contents[OF a9] by (simp add: k8' cstr_main)
  have "scenario_calls fresh ops ?m ctx = Some (?x8\<lparr>buf := b9\<rparr>)"
    using r1 r2' r3' r4' r5 r6' r7 by (simp add: scenario_calls_def after_module_def)
  with l k9 show ?thesis
    by (intro exI[of _ l] exI[of _ "?x8\<lparr>buf := b9\<rparr>"] conjI) simp_all
qed

lemma bytes_at_contents:
  "offset + n \<le> size_buf b \<Longrightarrow> bytes_at b offset n = take n (drop offset (contents b))"
  by (rule nth_equalityI) (simp_all add: bytes_at_def contents_def)

text \<open>
  Claim C9. For the module with no globals, no imports, no segments and one function
  without arguments or result, whose body is a single no-op and which is exported as
  \<open>main\<close>, the calls of the parser succeed whenever the maximal memory size is not 1, and
  the image they leave has 40 bytes. It begins with a preamble of eight bytes: the
  logarithm of the memory size, the export-memory flag 1, and the three counts (0 globals,
  1 function, 0 segments) as 16-bit little-endian values, that is \<open>0, 0, 1, 0, 0, 0\<close>. The one
  function header stands at offset 8: its name-offset field (at 10) holds 35, where the
  zero-terminated string \<open>main\<close> stands at the end of the image; its code-start and code-end
  fields (at 14 and 18) hold 32 and 35, which bracket exactly the block opcode, the count
  byte 1 and the no-op opcode; its export flag (at 30) is 1.
\<close>

theorem end_to_end_scenario:
  assumes "mem \<noteq> 1"
  shows "\<exists>l ctx'. log_two_u32 mem = Some l \<and>
     scenario_calls fresh ops (scenario_module mem) ctx = Some ctx' \<and>
     contents (buf ctx') =
       [ucast l, 1] @ le_bytes 2 0 @ le_bytes 2 1 @ le_bytes 2 0 @
       [0, 0] @ le_bytes 4 35 @ le_bytes 4 32 @ le_bytes 4 35 @
       [0, 0, 0, 0, 0, 0, 0, 0] @ [1, 0] @
       [word_of_int (WASM_OPCODE_BLOCK ops), 1, word_of_int (WASM_OPCODE_NOP ops)] @
       cstr_bytes ''main'' \<and>
     bytes_at (buf ctx') 0 8 = [ucast l, 1, 0, 0, 1, 0, 0, 0] \<and>
     bytes_at (buf ctx') 30 1 = [1] \<and>
     field_u32 (buf ctx') 10 = 35 \<and>
     bytes_at (buf ctx') 35 5 = cstr_bytes ''main'' \<and>
     size_buf (buf ctx') = 40 \<and>
     field_u32 (buf ctx') 14 = 32 \<and>
     field_u32 (buf ctx') 18 = 35 \<and>
     bytes_at (buf ctx') 32 3 =
       [word_of_int (WASM_OPCODE_BLOCK ops), 1, word_of_int (WASM_OPCODE_NOP ops)]"
proof -
  from scenario_image[OF assms, of fresh ops ctx] obtain l ctx' where
    l: "log_two_u32 mem = Some l"
    and r: "scenario_calls fresh ops (scenario_module mem) ctx = Some ctx'"
    and k: "contents (buf ctx') =
       [ucast l, 1, 0, 0, 1, 0, 0, 0,
        0, 0, 35, 0, 0, 0, 32, 0, 0, 0, 35, 0, 0, 0, 0, 0, 0, 0, 0, 0, 0, 0, 1, 0,
        word_of_int (WASM_OPCODE_BLOCK ops), 1, word_of_int (WASM_OPCODE_NOP ops),
        109, 97, 105, 110, 0]"
    by (elim exE conjE)
  have sz: "size_buf (buf ctx') = 40" using arg_cong[OF k, of length] by simp
  have c1: "contents (buf ctx') =
       [ucast l, 1] @ le_bytes 2 0 @ le_bytes 2 1 @ le_bytes 2 0 @
       [0, 0] @ le_bytes 4 35 @ le_bytes 4 32 @ le_bytes 4 35 @
       [0, 0, 0, 0, 0, 0, 0, 0] @ [1, 0] @
       [word_of_int (WASM_OPCODE_BLOCK ops), 1, word_of_int (WASM_OPCODE_NOP ops)] @
       cstr_bytes ''main''"
    unfolding k by (simp add: le_bytes_numeral cstr_main)
  have c2: "bytes_at (buf ctx') 0 8 = [ucast l, 1, 0, 0, 1, 0, 0, 0]"
    by (simp add: bytes_at_contents sz k)
  have c3: "bytes_at (buf ctx') 30 1 = [1]"
    by (simp add: bytes_at_contents sz k)
  have c4: "field_u32 (buf ctx') 10 = 35"
    by (simp add: field_u32_def bytes_at_contents sz k)
  have c5: "bytes_at (buf ctx') 35 5 = cstr_bytes ''main''"
    by (simp add: bytes_at_contents sz k cstr_main)
  have c6: "field_u32 (buf ctx') 14 = 32"
    by (simp add: field_u32_def bytes_at_contents sz k)
  have c7: "field_u32 (buf ctx') 18 = 35"
    by (simp add: field_u32_def bytes_at_contents sz k)
  have c8: "bytes_at (buf ctx') 32 3 =
       [word_of_int (WASM_OPCODE_BLOCK ops), 1, word_of_int (WASM_OPCODE_NOP ops)]"
    by (simp add: bytes_at_contents sz k)
  from l r c1 c2 c3 c4 c5 sz c6 c7 c8 show ?thesis
    by (intro exI[of _ l] exI[of _ ctx'] conjI)
qed

theorem end_to_end_scenario_witness:
  "(0 :: u32) \<noteq> 1 \<and>
   (\<exists>ctx'. scenario_calls (\<lambda>i. 0) sample_opcodes (scenario_module 0) sample_ctx = Some ctx' \<and>
      contents (buf ctx') =
        [0, 1, 0, 0, 1, 0, 0, 0,
         0, 0, 35, 0, 0, 0, 32, 0, 0, 0, 35, 0, 0, 0, 0, 0, 0, 0, 0, 0, 0, 0, 1, 0,
         1, 1, 0,
         109, 97, 105, 110, 0])"
proof -
  have h: "(0 :: u32) \<noteq> 1" by simp
  from end_to_end_scenario[OF h, of "\<lambda>i. 0" sample_opcodes sample_ctx] obtain l ctx' where
    l: "log_two_u32 0 = Some l"
    and r: "scenario_calls (\<lambda>i. 0) sample_opcodes (scenario_module 0) sample_ctx = Some ctx'"
    and k: "contents (buf ctx') =
       [ucast l, 1] @ le_bytes 2 0 @ le_bytes 2 1 @ le_bytes 2 0 @
       [0, 0] @ le_bytes 4 35 @ le_bytes 4 32 @ le_bytes 4 35 @
       [0, 0, 0, 0, 0, 0, 0, 0] @ [1, 0] @
       [word_of_int (WASM_OPCODE_BLOCK sample_opcodes), 1,
        word_of_int (WASM_OPCODE_NOP sample_opcodes)] @
       cstr_bytes ''main''"
    by (elim exE conjE)
  from l have l0: "l = 0" by (simp add: log_two_u32_def)
  have "contents (buf ctx') =
        [0, 1, 0, 0, 1, 0, 0, 0,
         0, 0, 35, 0, 0, 0, 32, 0, 0, 0, 35, 0, 0, 0, 0, 0, 0, 0, 0, 0, 0, 0, 1, 0,
         1, 1, 0,
         109, 97, 105, 110, 0]"
    unfolding k l0 by (simp add: le_bytes_numeral cstr_main sample_opcodes_def)
  with h r show ?thesis by (intro conjI exI[of _ ctx'])
qed

text \<open>
  The first six bytes of the image are \<open>0, 1, 0, 0, 1, 0\<close>, not \<open>0, 1, 0, 1, 0, 0\<close>: each
  count of the preamble takes two bytes.
\<close>

theorem scenario_preamble_counterexample:
  "map_option (\<lambda>ctx'. take 6 (contents (buf ctx')))
     (scenario_calls (\<lambda>i. 0) sample_opcodes (scenario_module 0) sample_ctx) =
   Some [0, 1, 0, 0, 1, 0]"
proof -
  have h: "(0 :: u32) \<noteq> 1" by simp
  from scenario_image[OF h, of "\<lambda>i. 0" sample_opcodes sample_ctx] obtain l ctx' where
    l: "log_two_u32 0 = Some l"
    and r: "scenario_calls (\<lambda>i. 0) sample_opcodes (scenario_module 0) sample_ctx = Some ctx'"
    and k: "contents (buf ctx') =
       [ucast l, 1, 0, 0, 1, 0, 0, 0,
        0, 0, 35, 0, 0, 0, 32, 0, 0, 0, 35, 0, 0, 0, 0, 0, 0, 0, 0, 0, 0, 0, 1, 0,
        word_of_int (WASM_OPCODE_BLOCK sample_opcodes), 1,
        word_of_int (WASM_OPCODE_NOP sample_opcodes),
        109, 97, 105, 110, 0]"
    by (elim exE conjE)
  from l have l0: "l = 0" by (simp add: log_two_u32_def)
  show ?thesis unfolding r by (simp add: k l0)
qed

end
